theory Spec2Isabelle
  imports Main "HOL-Library.Word" "HOL-Library.Sublist" "HOL-Library.Multiset"
begin

section \<open>JavaScript strings\<close>

text \<open>
  A JavaScript string is a sequence of UTF-16 code units: \<open>length\<close>, \<open>indexOf\<close>,
  \<open>slice\<close> and a regular expression without the \<open>u\<close> flag all count and compare code
  units. A string literal of the source that is plain ASCII is written \<open>lit ''...''\<close>.
\<close>

type_synonym jschar = "16 word"
type_synonym jsstring = "jschar list"

definition lit :: "string \<Rightarrow> jsstring" where
  "lit s = map (\<lambda>c. of_char c) s"

text \<open>
  \<open>Number.prototype.toString\<close> (and a number in a template literal) on a non-negative
  integer: its decimal digits.
\<close>

definition digit :: "nat \<Rightarrow> jschar" where
  "digit d = of_nat (48 + d)"

function decimal :: "nat \<Rightarrow> jsstring" where
  "decimal n = (if n < 10 then [digit n] else decimal (n div 10) @ [digit (n mod 10)])"
  by pat_completeness auto
termination
  by (relation "measure id") auto

declare decimal.simps [simp del]

section \<open>What is thrown\<close>

text \<open>
  \<open>Error m\<close> is \<open>new Error(m)\<close> of the sources, with its message. The other
  constructors are the errors of the libraries, each with a message of its own kind:
  \<open>ValidationError v\<close> is what \<open>validate\<close> throws for the value \<open>v\<close>;
  \<open>UnscopedValidationError m\<close> is the error of aws-cdk-lib with the message \<open>m\<close>;
  \<open>DuplicateConstructId i\<close> is the error of the construct tree for a second child
  of the id \<open>i\<close> (its message, There is already a Construct with name \<open>i\<close> in the
  parent, names the parent, which is outside the model); \<open>ENOENT p\<close> and
  \<open>EACCES p\<close> are the errors of \<open>fs\<close> for the path \<open>p\<close>; \<open>SdkError m\<close> is a
  rejected call of the AWS SDK.
\<close>

datatype error =
    Error jsstring | ValidationError jsstring | UnscopedValidationError jsstring
  | DuplicateConstructId jsstring | ENOENT jsstring | EACCES jsstring | SdkError jsstring

section \<open>constructs/ec2-image-builder-start/index.ts\<close>

subsection \<open>The types of aws-cdk-lib that the construct touches\<close>

text \<open>
  \<open>Duration\<close> is a class of aws-cdk-lib: an amount and a unit of time, made by
  \<open>Duration.millis\<close>, \<open>Duration.seconds\<close>, \<open>Duration.minutes\<close>, \<open>Duration.hours\<close> and
  \<open>Duration.days\<close>. \<open>toSeconds()\<close> converts the amount and throws when the result is
  not a whole number of seconds. The amounts of the model are whole numbers; a fractional
  amount and an amount that is a deploy-time token are not modelled. Topics, keys, VPCs
  and subnet selections are opaque handles. A CloudFormation value is a literal string or
  a token that resolves at deployment.
\<close>

datatype TimeUnit = Milliseconds | Seconds | Minutes | Hours | Days

fun inMillis :: "TimeUnit \<Rightarrow> nat" where
  "inMillis Milliseconds = 1"
| "inMillis Seconds = 1000"
| "inMillis Minutes = 60000"
| "inMillis Hours = 3600000"
| "inMillis Days = 86400000"

fun unitLabel :: "TimeUnit \<Rightarrow> jsstring" where
  "unitLabel Milliseconds = lit ''millis''"
| "unitLabel Seconds = lit ''seconds''"
| "unitLabel Minutes = lit ''minutes''"
| "unitLabel Hours = lit ''hours''"
| "unitLabel Days = lit ''days''"

datatype Duration = Duration nat TimeUnit

fun toSeconds :: "Duration \<Rightarrow> error + nat" where
  "toSeconds (Duration amount u) =
     (if (amount * inMillis u) mod 1000 = 0
      then Inr ((amount * inMillis u) div 1000)
      else Inl (UnscopedValidationError
                  ([39] @ decimal amount @ lit '' '' @ unitLabel u @ [39]
                   @ lit '' cannot be converted into a whole number of seconds.'')))"

definition hours :: "nat \<Rightarrow> Duration" where
  "hours n = Duration n Hours"

datatype ITopic = Topic jsstring
datatype IKey = Key jsstring
datatype IVpc = Vpc jsstring
datatype SubnetSelection = Subnets jsstring

datatype CfnValue = Str jsstring | Ref jsstring | ResponseField jsstring jsstring

text \<open>
  The interface \<open>LambdaConfiguration\<close> is declared outside the sources at hand; the model
  keeps the two fields the construct reads (\<open>vpc\<close>, \<open>subnets\<close>).
\<close>

record LambdaConfiguration =
  vpc :: "IVpc option"
  subnets :: "SubnetSelection option"

record WaitForCompletionProps =
  topic :: ITopic
  timeout :: "Duration option"

record Ec2ImageBuilderStartProps =
  pipelineArn :: jsstring
  hash :: "jsstring option"
  waitForCompletion :: "WaitForCompletionProps option"
  lambdaConfiguration :: "LambdaConfiguration option"
  encryption :: "IKey option"

record AwsSdkCall =
  action :: jsstring
  service :: jsstring
  parameters :: "(jsstring \<times> jsstring) list"
  physicalResourceId :: jsstring

datatype RetentionDays = ONE_YEAR

record AwsCustomResourceProps =
  policyResources :: "jsstring list"
  logRetention :: RetentionDays
  onCreate :: AwsSdkCall
  onUpdate :: AwsSdkCall
  resourceType :: jsstring
  crVpc :: "IVpc option"
  crVpcSubnets :: "SubnetSelection option"

datatype Runtime = NODEJS_20_X | NODEJS_22_X

record NodejsFunctionProps =
  minify :: bool
  entry :: "jsstring list"
  handler :: jsstring
  runtime :: Runtime
  reservedConcurrentExecutions :: nat
  environment :: "(jsstring \<times> CfnValue) list"
  environmentEncryption :: "IKey option"
  spread :: "LambdaConfiguration option"
  eventSources :: "ITopic list"

record CfnWaitConditionProps =
  handle :: CfnValue
  waitTimeout :: jsstring
  dependsOn :: "jsstring list"

text \<open>The children a construct adds to itself, each under its construct id.\<close>

datatype Resource =
    AwsCustomResource jsstring AwsCustomResourceProps
  | CfnWaitConditionHandle jsstring
  | NodejsFunction jsstring NodejsFunctionProps
  | CfnWaitCondition jsstring CfnWaitConditionProps

fun resourceId :: "Resource \<Rightarrow> jsstring" where
  "resourceId (AwsCustomResource i _) = i"
| "resourceId (CfnWaitConditionHandle i) = i"
| "resourceId (NodejsFunction i _) = i"
| "resourceId (CfnWaitCondition i _) = i"

text \<open>
  \<open>new C(this, id, ...)\<close> adds the new construct to the children of \<open>this\<close>; the
  construct tree throws when \<open>this\<close> already has a child of that id. (The tree compares
  the ids after replacing each slash by two hyphens. The ids compared here start with
  different fixed words, or one of them is a fixed word without hyphens, so that they
  are equal after the replacement exactly when they are equal before it.)
\<close>

definition addChild :: "Resource list \<Rightarrow> Resource \<Rightarrow> error + Resource list" where
  "addChild this r =
     (if resourceId r \<in> set (map resourceId this)
      then Inl (DuplicateConstructId (resourceId r))
      else Inr (this @ [r]))"

record Ec2ImageBuilderStart =
  imageBuildVersionArn :: CfnValue
  children :: "Resource list"

subsection \<open>common/validate\<close>

text \<open>
  Modelled from the spec: \<open>validate\<close> and \<open>ValidationTypes\<close> live in
  \<open>common/validate\<close>, which is not among the sources. The spec counts the ARN format
  among the validations that throw during construct instantiation, so \<open>validate\<close>
  throws when the value does not match the format and returns otherwise. The format
  itself (a regular expression of that module) is the parameter \<open>awsArn\<close>.
\<close>

datatype ValidationTypes = AWS_ARN

definition validate :: "(jsstring \<Rightarrow> bool) \<Rightarrow> jsstring \<Rightarrow> ValidationTypes \<Rightarrow> error + unit" where
  "validate awsArn v t =
     (case t of AWS_ARN \<Rightarrow> if awsArn v then Inr () else Inl (ValidationError v))"

subsection \<open>The construct\<close>

text \<open>
  The constructor's \<open>scope\<close> and \<open>id\<close> only place the construct in the construct
  tree: the model is of the constructor from the return of \<open>super(scope, id)\<close> on, with
  no child in the new construct yet. \<open>entry\<close> is the path below \<open>__dirname\<close>. A
  constructor that throws returns \<open>Inl\<close> and builds nothing. What the constructors of
  the children check beyond the id is left to aws-cdk-lib.
\<close>

text \<open>\<open>this.hash = props.hash ?? 'Run1x'\<close>: only an absent hash is replaced.\<close>

definition thisHash :: "Ec2ImageBuilderStartProps \<Rightarrow> jsstring" where
  "thisHash props = (case hash props of None \<Rightarrow> lit ''Run1x'' | Some h \<Rightarrow> h)"

definition start :: "jsstring \<Rightarrow> jsstring \<Rightarrow> AwsSdkCall" where
  "start thisHash' pipelineArn' =
     \<lparr> action = lit ''startImagePipelineExecution'',
       service = lit ''Imagebuilder'',
       parameters = [(lit ''imagePipelineArn'', pipelineArn')],
       physicalResourceId = thisHash' \<rparr>"

text \<open>
  \<open>waitForTopicSignal\<close> adds its three constructs to \<open>this\<close>, the children so far. The
  arguments of \<open>new CfnWaitCondition\<close> are evaluated before the construct is added, so
  a throw of \<open>toSeconds()\<close> comes before the check of the id. The event source and the
  dependency, added to the constructs after they are built, are shown in their props.
\<close>

definition waitForTopicSignal ::
  "Resource list \<Rightarrow> jsstring \<Rightarrow> CfnValue \<Rightarrow> Ec2ImageBuilderStartProps
     \<Rightarrow> error + Resource list" where
  "waitForTopicSignal this thisHash' imageArn props =
     (case waitForCompletion props of
        None \<Rightarrow> Inr this
      | Some w \<Rightarrow>
          (let waitHandleId = lit ''WaitHandle'' @ thisHash';
               waitHandle = CfnWaitConditionHandle waitHandleId;
               signal = NodejsFunction (lit ''WaiterSignal'')
                 \<lparr> minify = True,
                   entry = [lit ''handler'', lit ''index.ts''],
                   handler = lit ''index.handler'',
                   runtime = NODEJS_20_X,
                   reservedConcurrentExecutions = 5,
                   environment = [(lit ''WAIT_HANDLE_URL'', Ref waitHandleId),
                                  (lit ''IMAGE_BUILD_ARN'', imageArn)],
                   environmentEncryption = encryption props,
                   spread = lambdaConfiguration props,
                   eventSources = [topic w] \<rparr>;
               duration = (case timeout w of None \<Rightarrow> hours 12 | Some d \<Rightarrow> d)
           in (case addChild this waitHandle of
                 Inl e \<Rightarrow> Inl e
               | Inr this1 \<Rightarrow>
                   (case addChild this1 signal of
                      Inl e \<Rightarrow> Inl e
                    | Inr this2 \<Rightarrow>
                        (case toSeconds duration of
                           Inl e \<Rightarrow> Inl e
                         | Inr seconds \<Rightarrow>
                             addChild this2
                               (CfnWaitCondition (lit ''Waiter'' @ thisHash')
                                  \<lparr> handle = Ref waitHandleId,
                                    waitTimeout = decimal seconds,
                                    dependsOn = [lit ''WaiterSignal''] \<rparr>))))))"

definition Ec2ImageBuilderStart_constructor ::
  "(jsstring \<Rightarrow> bool) \<Rightarrow> Ec2ImageBuilderStartProps \<Rightarrow> error + Ec2ImageBuilderStart" where
  "Ec2ImageBuilderStart_constructor awsArn props =
     (case (case waitForCompletion props of
              None \<Rightarrow> Inr 0
            | Some w \<Rightarrow> (case timeout w of None \<Rightarrow> Inr 0 | Some d \<Rightarrow> toSeconds d)) of
        Inl e \<Rightarrow> Inl e
      | Inr seconds \<Rightarrow>
          if seconds > 43200
          then Inl (Error (lit ''Timeout cannot exceed 12 hours''))
          else if (case hash props of None \<Rightarrow> 0 | Some h \<Rightarrow> length h) > 7
          then Inl (Error (lit ''Hash must be 7 characters or less''))
          else
            (case validate awsArn (pipelineArn props) AWS_ARN of
               Inl e \<Rightarrow> Inl e
             | Inr _ \<Rightarrow>
                 (let h = thisHash props;
                      cr = AwsCustomResource (lit ''Ec2ImageBuilderStartCr'')
                        \<lparr> policyResources = [pipelineArn props],
                          logRetention = ONE_YEAR,
                          onCreate = start h (pipelineArn props),
                          onUpdate = start h (pipelineArn props),
                          resourceType = lit ''Custom::Ec2ImageBuilderStart'',
                          crVpc = (case lambdaConfiguration props of
                                     None \<Rightarrow> None | Some c \<Rightarrow> vpc c),
                          crVpcSubnets = (case lambdaConfiguration props of
                                            None \<Rightarrow> None | Some c \<Rightarrow> subnets c) \<rparr>;
                      arn = ResponseField (lit ''Ec2ImageBuilderStartCr'')
                              (lit ''imageBuildVersionArn'')
                  in (case addChild [] cr of
                        Inl e \<Rightarrow> Inl e
                      | Inr this1 \<Rightarrow>
                          (case waitForTopicSignal this1 h arn props of
                             Inl e \<Rightarrow> Inl e
                           | Inr this2 \<Rightarrow>
                               Inr \<lparr> imageBuildVersionArn = arn, children = this2 \<rparr>)))))"

subsection \<open>What the claims read off the props and off a built construct\<close>

text \<open>
  \<open>props.waitForCompletion?.timeout?.toSeconds() ?? 0\<close> and \<open>props.hash?.length ?? 0\<close>,
  the two quantities the constructor compares with its bounds; the first is the number
  of seconds, or the error that \<open>toSeconds()\<close> throws. \<open>timeoutError\<close> and \<open>hashError\<close>
  are the two errors of the bound checks.
\<close>

definition timeoutSeconds :: "Ec2ImageBuilderStartProps \<Rightarrow> error + nat" where
  "timeoutSeconds props =
     (case waitForCompletion props of
        None \<Rightarrow> Inr 0
      | Some w \<Rightarrow> (case timeout w of None \<Rightarrow> Inr 0 | Some d \<Rightarrow> toSeconds d))"

definition timeoutError :: error where
  "timeoutError = Error (lit ''Timeout cannot exceed 12 hours'')"

definition hashError :: error where
  "hashError = Error (lit ''Hash must be 7 characters or less'')"

definition hashLength :: "Ec2ImageBuilderStartProps \<Rightarrow> nat" where
  "hashLength props = (case hash props of None \<Rightarrow> 0 | Some h \<Rightarrow> length h)"

text \<open>The custom resource the constructor builds, and the token of its response field.\<close>

definition customResourceOf :: "Ec2ImageBuilderStartProps \<Rightarrow> Resource" where
  "customResourceOf props =
     AwsCustomResource (lit ''Ec2ImageBuilderStartCr'')
       \<lparr> policyResources = [pipelineArn props],
         logRetention = ONE_YEAR,
         onCreate = start (thisHash props) (pipelineArn props),
         onUpdate = start (thisHash props) (pipelineArn props),
         resourceType = lit ''Custom::Ec2ImageBuilderStart'',
         crVpc = (case lambdaConfiguration props of None \<Rightarrow> None | Some c \<Rightarrow> vpc c),
         crVpcSubnets = (case lambdaConfiguration props of None \<Rightarrow> None | Some c \<Rightarrow> subnets c) \<rparr>"

definition responseArn :: CfnValue where
  "responseArn = ResponseField (lit ''Ec2ImageBuilderStartCr'') (lit ''imageBuildVersionArn'')"

fun isCustomResource :: "Resource \<Rightarrow> bool" where
  "isCustomResource (AwsCustomResource _ _) = True"
| "isCustomResource _ = False"


subsection \<open>Concrete props\<close>

definition arn0 :: jsstring where
  "arn0 = lit ''arn:aws:imagebuilder:us-east-1:123456789012:image-pipeline/p''"

definition isArn0 :: "jsstring \<Rightarrow> bool" where
  "isArn0 s = (take 4 s = lit ''arn:'')"

definition props0 :: Ec2ImageBuilderStartProps where
  "props0 = \<lparr> pipelineArn = arn0, hash = None, waitForCompletion = None,
              lambdaConfiguration = None, encryption = None \<rparr>"

definition propsLongTimeout :: Ec2ImageBuilderStartProps where
  "propsLongTimeout =
     props0 \<lparr> waitForCompletion := Some \<lparr> topic = Topic (lit ''t''), timeout = Some (Duration 43201 Seconds) \<rparr> \<rparr>"

definition propsLongHash :: Ec2ImageBuilderStartProps where
  "propsLongHash = props0 \<lparr> hash := Some (lit ''12345678'') \<rparr>"

definition propsBadArn :: Ec2ImageBuilderStartProps where
  "propsBadArn = props0 \<lparr> pipelineArn := lit ''pipeline'' \<rparr>"

definition propsAtBounds :: Ec2ImageBuilderStartProps where
  "propsAtBounds =
     props0 \<lparr> hash := Some (lit ''1234567''),
              waitForCompletion := Some \<lparr> topic = Topic (lit ''t''), timeout = Some (hours 12) \<rparr> \<rparr>"

definition propsWait :: Ec2ImageBuilderStartProps where
  "propsWait =
     props0 \<lparr> waitForCompletion := Some \<lparr> topic = Topic (lit ''t''), timeout = None \<rparr> \<rparr>"

text \<open>
  Props with a timeout above the bound and a hash above the bound; props with a timeout
  that is no whole number of seconds; and props whose hash makes the id of the wait
  condition the id of the signal Lambda.
\<close>

definition propsBoth :: Ec2ImageBuilderStartProps where
  "propsBoth =
     props0 \<lparr> hash := Some (lit ''12345678''),
              waitForCompletion :=
                Some \<lparr> topic = Topic (lit ''t''), timeout = Some (Duration 43201 Seconds) \<rparr> \<rparr>"

definition propsMillis :: Ec2ImageBuilderStartProps where
  "propsMillis =
     props0 \<lparr> waitForCompletion :=
                Some \<lparr> topic = Topic (lit ''t''), timeout = Some (Duration 1500 Milliseconds) \<rparr> \<rparr>"

definition propsSignal :: Ec2ImageBuilderStartProps where
  "propsSignal =
     props0 \<lparr> hash := Some (lit ''Signal''),
              waitForCompletion := Some \<lparr> topic = Topic (lit ''t''), timeout = None \<rparr> \<rparr>"

section \<open>constructs/dynamodb-provision-table/index.ts\<close>

text \<open>
  A construct is an object: two stacks that carry the same node id are still two
  stacks. Each object of the model holds its identity (\<open>stackRef\<close>, \<open>scopeRef\<close>,
  \<open>providerRef\<close>) next to its fields. \<open>Stack.of(scope)\<close> is the field \<open>stackOf\<close>.
\<close>

record Stack =
  stackRef :: nat
  nodeId :: jsstring

record Scope =
  scopeRef :: nat
  stackOf :: Stack

datatype ITable = Table jsstring

fun tableName :: "ITable \<Rightarrow> jsstring" where
  "tableName (Table n) = n"

record TableProps =
  resource :: ITable
  partitionKeyName :: jsstring
  sortKeyName :: "jsstring option"
  tableEncryption :: "IKey option"

text \<open>An item is a \<open>Record<string, unknown>\<close>: its values are kept as opaque text.\<close>

record DynamoDBProvisionTableProps =
  table :: TableProps
  items :: "(jsstring \<times> jsstring) list list"
  ddbEncryption :: "IKey option"
  ddbLambdaConfiguration :: "LambdaConfiguration option"

record SecureFunctionProps =
  code :: "jsstring list"
  sfHandler :: jsstring
  memorySize :: nat
  sfTimeout :: Duration
  sfRuntime :: Runtime
  sfEncryption :: "IKey option"
  sfSpread :: "LambdaConfiguration option"

text \<open>
  A \<open>Provider\<close> is built under the construct \<open>Cr<class name>\<close> that is added to the
  scope of the construction that builds it; \<open>onEventHandler\<close> is its OnEvent Lambda.
\<close>

record Provider =
  providerRef :: nat
  providerScope :: Scope
  onEventHandler :: SecureFunctionProps

datatype Grant = ReadWriteData ITable | EncryptDecrypt IKey

record ResourceProperties =
  Items :: "(jsstring \<times> jsstring) list list"
  PartitionKeyName :: jsstring
  TableName :: jsstring
  SortKeyName :: "jsstring option"

record CustomResourceProps =
  serviceToken :: CfnValue
  properties :: ResourceProperties
  crResourceType :: jsstring

record DynamoDBProvisionTable =
  permissions :: "Grant list"
  customResource :: CustomResourceProps

text \<open>
  The state the class shares between its instances, and what its constructions leave in
  the construct tree: the static map \<open>serviceTokens\<close>, every \<open>Provider\<close> built so far
  (in the order built), and the inline policies attached to the role of a provider's
  handler.
\<close>

record World =
  serviceTokens :: "jsstring \<rightharpoonup> Provider"
  providers :: "Provider list"
  rolePolicies :: "(nat \<times> Grant list) list"

definition world0 :: World where
  "world0 = \<lparr> serviceTokens = Map.empty, providers = [], rolePolicies = [] \<rparr>"

definition buildProvider :: "World \<Rightarrow> Scope \<Rightarrow> DynamoDBProvisionTableProps \<Rightarrow> Provider" where
  "buildProvider w scope props =
     \<lparr> providerRef = length (providers w),
       providerScope = scope,
       onEventHandler =
         \<lparr> code = [lit ''handler'', lit ''on-event''],
           sfHandler = lit ''index.handler'',
           memorySize = 512,
           sfTimeout = Duration 1 Minutes,
           sfRuntime = NODEJS_22_X,
           sfEncryption = ddbEncryption props,
           sfSpread = ddbLambdaConfiguration props \<rparr> \<rparr>"

definition getOrBuildProvider ::
  "World \<Rightarrow> Scope \<Rightarrow> DynamoDBProvisionTableProps \<Rightarrow> Provider \<times> World" where
  "getOrBuildProvider w scope props =
     (let stackId = nodeId (stackOf scope);
          w' = (if serviceTokens w stackId = None
                then (let p = buildProvider w scope props
                      in w \<lparr> serviceTokens := (serviceTokens w)(stackId \<mapsto> p),
                             providers := providers w @ [p] \<rparr>)
                else w)
      in (the (serviceTokens w' stackId), w'))"

definition createCustomResourceProperties ::
  "DynamoDBProvisionTableProps \<Rightarrow> ResourceProperties" where
  "createCustomResourceProperties props =
     \<lparr> Items = items props,
       PartitionKeyName = partitionKeyName (table props),
       TableName = tableName (resource (table props)),
       SortKeyName = sortKeyName (table props) \<rparr>"

definition DynamoDBProvisionTable_constructor ::
  "World \<Rightarrow> Scope \<Rightarrow> DynamoDBProvisionTableProps \<Rightarrow> (Provider \<times> DynamoDBProvisionTable) \<times> World" where
  "DynamoDBProvisionTable_constructor w scope props =
     (let (provider, w1) = getOrBuildProvider w scope props;
          providerPermissions =
            ReadWriteData (resource (table props))
            # (case tableEncryption (table props) of
                 None \<Rightarrow> [] | Some k \<Rightarrow> [EncryptDecrypt k]);
          w2 = w1 \<lparr> rolePolicies :=
                      rolePolicies w1 @ [(providerRef provider, providerPermissions)] \<rparr>
      in ((provider,
           \<lparr> permissions = providerPermissions,
             customResource =
               \<lparr> serviceToken = Ref (lit ''Provider'' @ decimal (providerRef provider)),
                 properties = createCustomResourceProperties props,
                 crResourceType = lit ''Custom::DynamoDBProvisionTable'' \<rparr> \<rparr>), w2))"

text \<open>
  A sequence of constructions, each in its scope with its props, run in order on the
  shared state; the result lists the provider each construction used. The construct id
  of a construction only names it in the construct tree and is left out, and the service
  token of a provider is a token that names the provider.
\<close>

fun constructions ::
  "World \<Rightarrow> (Scope \<times> DynamoDBProvisionTableProps) list \<Rightarrow> Provider list \<times> World" where
  "constructions w [] = ([], w)"
| "constructions w ((scope, props) # cs) =
     (let ((p, _), w1) = DynamoDBProvisionTable_constructor w scope props;
          (ps, w2) = constructions w1 cs
      in (p # ps, w2))"

definition stackIdOf :: "Scope \<times> DynamoDBProvisionTableProps \<Rightarrow> jsstring" where
  "stackIdOf c = nodeId (stackOf (fst c))"

text \<open>
  The stack node id a provider was built for, and the invariant that ties the static
  map to the providers built: the providers are numbered in the order built, no two
  were built for the same node id, and the map holds exactly the built providers, each
  under the node id it was built for.
\<close>

definition providerStackId :: "Provider \<Rightarrow> jsstring" where
  "providerStackId p = nodeId (stackOf (providerScope p))"

definition cacheInv :: "World \<Rightarrow> bool" where
  "cacheInv w =
     (map providerRef (providers w) = [0..<length (providers w)]
      \<and> distinct (map providerStackId (providers w))
      \<and> (\<forall>k p. (serviceTokens w k = Some p) = (p \<in> set (providers w) \<and> providerStackId p = k)))"

subsection \<open>Concrete constructions\<close>

definition stackA :: Stack where
  "stackA = \<lparr> stackRef = 0, nodeId = lit ''A'' \<rparr>"

definition stackB :: Stack where
  "stackB = \<lparr> stackRef = 1, nodeId = lit ''B'' \<rparr>"

definition ddbProps0 :: DynamoDBProvisionTableProps where
  "ddbProps0 =
     \<lparr> table = \<lparr> resource = Table (lit ''T''), partitionKeyName = lit ''pk'',
                 sortKeyName = None, tableEncryption = None \<rparr>,
       items = [], ddbEncryption = None, ddbLambdaConfiguration = None \<rparr>"

definition twoConstructions :: "(Scope \<times> DynamoDBProvisionTableProps) list" where
  "twoConstructions =
     [(\<lparr> scopeRef = 10, stackOf = stackA \<rparr>, ddbProps0),
      (\<lparr> scopeRef = 11, stackOf = stackB \<rparr>, ddbProps0)]"

definition scopeA2 :: Scope where
  "scopeA2 = \<lparr> scopeRef = 12, stackOf = stackA \<rparr>"

definition scopeC :: Scope where
  "scopeC = \<lparr> scopeRef = 13, stackOf = \<lparr> stackRef = 2, nodeId = lit ''C'' \<rparr> \<rparr>"

section \<open>The string methods and the file functions the generator scripts call\<close>

text \<open>
  Each method is the one of the ECMAScript standard library, on code units. The
  functions that only compare code units are polymorphic in the unit.
\<close>

definition nl :: jschar where
  "nl = 10"

definition dquote :: jschar where
  "dquote = 34"

definition dollar :: jschar where
  "dollar = 36"

definition startsWith :: "'a list \<Rightarrow> 'a list \<Rightarrow> bool" where
  "startsWith s p = (take (length p) s = p)"

text \<open>\<open>s.indexOf(p)\<close>: the least index at which \<open>p\<close> occurs in \<open>s\<close>, or -1.\<close>

fun indexOfFrom :: "'a list \<Rightarrow> 'a list \<Rightarrow> nat \<Rightarrow> int" where
  "indexOfFrom [] p i = (if p = [] then int i else - 1)"
| "indexOfFrom (c # s) p i =
     (if startsWith (c # s) p then int i else indexOfFrom s p (Suc i))"

definition indexOf :: "'a list \<Rightarrow> 'a list \<Rightarrow> int" where
  "indexOf s p = indexOfFrom s p 0"

text \<open>The pattern \<open>p\<close> occurs in \<open>s\<close> at index \<open>i\<close> and at no smaller index.\<close>

definition firstOccurrence :: "'a list \<Rightarrow> 'a list \<Rightarrow> nat \<Rightarrow> bool" where
  "firstOccurrence s p i =
     (i \<le> length s \<and> startsWith (drop i s) p \<and> (\<forall>j<i. \<not> startsWith (drop j s) p))"

definition includesStr :: "'a list \<Rightarrow> 'a list \<Rightarrow> bool" where
  "includesStr s p = (indexOf s p \<noteq> - 1)"

text \<open>
  \<open>s.slice(startIdx, endIdx)\<close> and \<open>s.slice(startIdx)\<close>: a negative index counts from the end, and
  both are clamped to the string.
\<close>

definition slice :: "'a list \<Rightarrow> int \<Rightarrow> int \<Rightarrow> 'a list" where
  "slice s startIdx endIdx =
     (let len = int (length s);
          from = (if startIdx < 0 then max (len + startIdx) 0 else min startIdx len);
          to = (if endIdx < 0 then max (len + endIdx) 0 else min endIdx len)
      in take (nat (to - from)) (drop (nat from) s))"

definition sliceFrom :: "'a list \<Rightarrow> int \<Rightarrow> 'a list" where
  "sliceFrom s startIdx = slice s startIdx (int (length s))"

text \<open>
  White space and line terminators: what \<open>trim()\<close> removes and what the white space
  class of a regular expression matches.
\<close>

definition isSpace :: "jschar \<Rightarrow> bool" where
  "isSpace c =
     (c = 9 \<or> c = 10 \<or> c = 11 \<or> c = 12 \<or> c = 13 \<or> c = 32 \<or> c = 0xA0 \<or> c = 0x1680
      \<or> (0x2000 \<le> c \<and> c \<le> 0x200A) \<or> c = 0x2028 \<or> c = 0x2029 \<or> c = 0x202F
      \<or> c = 0x205F \<or> c = 0x3000 \<or> c = 0xFEFF)"

definition trim :: "jsstring \<Rightarrow> jsstring" where
  "trim s = rev (dropWhile isSpace (rev (dropWhile isSpace s)))"

text \<open>\<open>s.split(sep)\<close> for a separator of one code unit; the result is never empty.\<close>

fun split :: "'a list \<Rightarrow> 'a \<Rightarrow> 'a list list" where
  "split [] sep = [[]]"
| "split (c # s) sep =
     (if c = sep then [] # split s sep
      else (case split s sep of [] \<Rightarrow> [[c]] | x # xs \<Rightarrow> (c # x) # xs))"

fun join :: "'a list list \<Rightarrow> 'a list \<Rightarrow> 'a list" where
  "join [] sep = []"
| "join [x] sep = x"
| "join (x # y # ys) sep = x @ sep @ join (y # ys) sep"

text \<open>
  \<open>toLowerCase()\<close> and \<open>toUpperCase()\<close> on the ASCII letters; every other code unit is
  left as it is. JavaScript also maps the letters beyond ASCII. None of those maps yields
  or consumes a character of the four tags \<open>.patterns.\<close>, \<open>.aspects.\<close>, \<open>.constructs.\<close>
  and \<open>.types.\<close> that \<open>parseApiDoc\<close> looks for in a lower-cased id (the only letters
  beyond ASCII that lower-case into ASCII give k and i), so the searches for the tags
  come out the same.
\<close>

definition isUpper :: "jschar \<Rightarrow> bool" where
  "isUpper c = (65 \<le> c \<and> c \<le> 90)"

definition isLower :: "jschar \<Rightarrow> bool" where
  "isLower c = (97 \<le> c \<and> c \<le> 122)"

definition toLowerCase :: "jsstring \<Rightarrow> jsstring" where
  "toLowerCase s = map (\<lambda>c. if isUpper c then c + 32 else c) s"

definition toUpperCase :: "jsstring \<Rightarrow> jsstring" where
  "toUpperCase s = map (\<lambda>c. if isLower c then c - 32 else c) s"

text \<open>
  \<open>s.replace(p, r)\<close> with a string or a regular expression that is a plain string and
  has no \<open>g\<close> flag, and a replacement \<open>r\<close> without \<open>$\<close>: the first occurrence is
  replaced.
\<close>

definition replaceFirst :: "'a list \<Rightarrow> 'a list \<Rightarrow> 'a list \<Rightarrow> 'a list" where
  "replaceFirst s p r =
     (let i = indexOf s p
      in if i = - 1 then s else take (nat i) s @ r @ drop (nat i + length p) s)"

text \<open>
  The replacement string of \<open>String.prototype.replace\<close> is not inserted as it is:
  \<open>GetSubstitution\<close> of the standard expands \<open>$$\<close> to \<open>$\<close>, \<open>$&\<close> to the matched text,
  a dollar followed by a backquote (code unit 96) to the text before the match and a
  dollar followed by an apostrophe (code unit 39) to the text after it. With a regular
  expression that has no capture group, as here, \<open>$1\<close> to \<open>$99\<close> and \<open>$<\<close> stay as
  they are, and so does any other \<open>$\<close>.
\<close>

fun getSubstitution :: "jsstring \<Rightarrow> jsstring \<Rightarrow> jsstring \<Rightarrow> jsstring \<Rightarrow> jsstring" where
  "getSubstitution matched preceding following [] = []"
| "getSubstitution matched preceding following [c] = [c]"
| "getSubstitution matched preceding following (c # d # r) =
     (if c = dollar \<and> d = dollar then dollar # getSubstitution matched preceding following r
      else if c = dollar \<and> d = 38 then matched @ getSubstitution matched preceding following r
      else if c = dollar \<and> d = 96 then preceding @ getSubstitution matched preceding following r
      else if c = dollar \<and> d = 39 then following @ getSubstitution matched preceding following r
      else c # getSubstitution matched preceding following (d # r))"

subsection \<open>node:fs\<close>

text \<open>
  The files of the working directory, each with its decoded text, and the paths that
  cannot be written. \<open>readFileSync\<close> throws on a missing file, \<open>writeFileSync\<close> on a
  path that cannot be written.
\<close>

record FileSystem =
  files :: "jsstring \<rightharpoonup> jsstring"
  readOnly :: "jsstring list"

definition readFileSync :: "FileSystem \<Rightarrow> jsstring \<Rightarrow> error + jsstring" where
  "readFileSync fs path =
     (case files fs path of None \<Rightarrow> Inl (ENOENT path) | Some content \<Rightarrow> Inr content)"

definition writeFileSync :: "FileSystem \<Rightarrow> jsstring \<Rightarrow> jsstring \<Rightarrow> error + FileSystem" where
  "writeFileSync fs path content =
     (if path \<in> set (readOnly fs) then Inl (EACCES path)
      else Inr (fs \<lparr> files := (files fs)(path \<mapsto> content) \<rparr>))"

datatype Console = ConsoleLog jsstring | ConsoleError jsstring error

section \<open>The generator of the WAF managed rule enum (part 000 of the unnamed sources)\<close>

subsection \<open>formatRuleGroupName\<close>

text \<open>The global replacement of \<open>SQLi\<close> by \<open>SQL_DATABASE\<close>: every occurrence, left to right.\<close>

fun replaceSQLi :: "jsstring \<Rightarrow> jsstring" where
  "replaceSQLi (a # b # c # d # s) =
     (if [a, b, c, d] = lit ''SQLi'' then lit ''SQL_DATABASE'' @ replaceSQLi s
      else a # replaceSQLi (b # c # d # s))"
| "replaceSQLi s = s"

text \<open>
  The global replacement of one or more capitals (first group) followed by a capital
  and a small letter (second group) by the two groups with an underscore between them.
  The expression matches where a run of two or more capitals is followed by a small
  letter; the first group is the run without its last capital, the second is that
  capital and the small letter. The search goes on behind the match.
\<close>

function splitCapitalRuns :: "jsstring \<Rightarrow> jsstring" where
  "splitCapitalRuns [] = []"
| "splitCapitalRuns (c # s) =
     (let run = takeWhile isUpper (c # s);
          rest = dropWhile isUpper (c # s)
      in (case rest of
            l # rest' \<Rightarrow>
              if 2 \<le> length run \<and> isLower l
              then butlast run @ lit ''_'' @ [last run, l] @ splitCapitalRuns rest'
              else c # splitCapitalRuns s
          | [] \<Rightarrow> c # splitCapitalRuns s))"
  by pat_completeness auto
termination
proof (relation "measure length")
  show "wf (measure length)" by simp
next
  fix c :: jschar and s run rest l rest'
  assume "rest = dropWhile isUpper (c # s)" "rest = l # rest'"
  then have "length (l # rest') \<le> length (c # s)"
    by (metis length_dropWhile_le)
  then show "(rest', c # s) \<in> measure length" by simp
qed simp_all

text \<open>The global replacement that puts an underscore between a small letter and a capital.\<close>

fun splitLowerUpper :: "jsstring \<Rightarrow> jsstring" where
  "splitLowerUpper (c # d # s) =
     (if isLower c \<and> isUpper d then c # lit ''_'' @ d # splitLowerUpper s
      else c # splitLowerUpper (d # s))"
| "splitLowerUpper s = s"

definition formatRuleGroupName :: "jsstring \<Rightarrow> jsstring" where
  "formatRuleGroupName name =
     (let formattedName =
            (if startsWith name (lit ''AWSManagedRules'')
             then drop (length (lit ''AWSManagedRules'')) name else name)
      in toUpperCase (splitLowerUpper (splitCapitalRuns (replaceSQLi formattedName))))"

subsection \<open>generateAndInjectAwsManagedRuleEnum\<close>

record ManagedRuleGroupSummary =
  Name :: "jsstring option"
  Description :: "jsstring option"

record ListAvailableManagedRuleGroupsResponse =
  ManagedRuleGroups :: "ManagedRuleGroupSummary list option"

text \<open>
  A JavaScript \<open>Map\<close> keeps its keys in the order of their first insertion; setting a
  key that is present replaces its value in place.
\<close>

fun mapSet :: "('k \<times> 'v) list \<Rightarrow> 'k \<Rightarrow> 'v \<Rightarrow> ('k \<times> 'v) list" where
  "mapSet [] k v = [(k, v)]"
| "mapSet ((k', v') # m) k v = (if k' = k then (k, v) # m else (k', v') # mapSet m k v)"

definition newMap :: "('k \<times> 'v) list \<Rightarrow> ('k \<times> 'v) list" where
  "newMap entries = foldl (\<lambda>m (k, v). mapSet m k v) [] entries"

text \<open>\<open>rule.Name && rule.Description\<close>: both present and not the empty string.\<close>

definition hasNameAndDescription :: "ManagedRuleGroupSummary \<Rightarrow> bool" where
  "hasNameAndDescription rule =
     ((case Name rule of None \<Rightarrow> False | Some n \<Rightarrow> n \<noteq> [])
      \<and> (case Description rule of None \<Rightarrow> False | Some d \<Rightarrow> d \<noteq> []))"

definition ruleGroupMapOf ::
  "ManagedRuleGroupSummary list \<Rightarrow> (jsstring \<times> jsstring) list" where
  "ruleGroupMapOf ruleGroups =
     newMap (map (\<lambda>rule. (the (Name rule), the (Description rule)))
               (filter hasNameAndDescription ruleGroups))"

definition enumEntry :: "jsstring \<times> jsstring \<Rightarrow> jsstring" where
  "enumEntry e =
     (case e of (ruleName, description) \<Rightarrow>
        (let name = formatRuleGroupName ruleName
         in lit ''        /** '' @ description @ lit '' */'' @ [nl]
            @ lit ''        '' @ name @ lit '' = '' @ [39] @ ruleName @ [39]))"

definition enumStringOf :: "(jsstring \<times> jsstring) list \<Rightarrow> jsstring" where
  "enumStringOf ruleGroupMap =
     lit ''    export enum AwsManagedRuleGroup {'' @ [nl]
     @ join (map enumEntry ruleGroupMap) (lit '','' @ [nl, nl]) @ [nl]
     @ lit ''    }''"

definition filePath :: jsstring where
  "filePath = lit ''src/constructs/web-application-firewall/index.ts''"

definition startMarker :: jsstring where
  "startMarker = lit ''/** WAF Managed Rule Groups */''"

definition endMarker :: jsstring where
  "endMarker = lit ''/** End WAF Managed Rule Groups */''"

text \<open>
  The marker replacement (the lines from \<open>indexOf\<close> to \<open>newContent\<close>): the new content
  of the file, or the error thrown when a marker is not found.
\<close>

definition injectEnum :: "jsstring \<Rightarrow> jsstring \<Rightarrow> error + jsstring" where
  "injectEnum fileContent enumString =
     (let startIndex = indexOf fileContent startMarker;
          endIndex = indexOf fileContent endMarker
      in if startIndex = - 1 \<or> endIndex = - 1
         then Inl (Error (lit ''Could not find injection markers in the file''))
         else Inr (slice fileContent 0 (startIndex + int (length startMarker))
                   @ [nl] @ enumString @ [nl] @ lit ''    ''
                   @ sliceFrom fileContent endIndex))"

text \<open>
  The body of the \<open>try\<close> block. \<open>send\<close> is what \<open>await client.send(command)\<close> gives: the
  response, or the error the SDK throws. The result is the file system after the write
  and the line logged, or the error thrown.
\<close>

definition generateAndInject_try ::
  "error + ListAvailableManagedRuleGroupsResponse \<Rightarrow> FileSystem \<Rightarrow> error + FileSystem \<times> jsstring" where
  "generateAndInject_try send fs =
     (case send of
        Inl e \<Rightarrow> Inl e
      | Inr response \<Rightarrow>
          (let ruleGroups = (case ManagedRuleGroups response of None \<Rightarrow> [] | Some g \<Rightarrow> g)
           in if length ruleGroups = 0
              then Inl (Error (lit ''No managed rule groups found''))
              else
                (let ruleGroupMap = ruleGroupMapOf ruleGroups;
                     enumString = enumStringOf ruleGroupMap
                 in (case readFileSync fs filePath of
                       Inl e \<Rightarrow> Inl e
                     | Inr fileContent \<Rightarrow>
                         (case injectEnum fileContent enumString of
                            Inl e \<Rightarrow> Inl e
                          | Inr newContent \<Rightarrow>
                              (case writeFileSync fs filePath newContent of
                                 Inl e \<Rightarrow> Inl e
                               | Inr fs' \<Rightarrow>
                                   Inr (fs', lit ''AWS Managed Rules generated -- count: ''
                                             @ decimal (length ruleGroupMap))))))))"

text \<open>
  The function itself: the \<open>try\<close> block and its \<open>catch\<close>, which logs the error. The
  result is \<open>Inl\<close> when an error leaves the function and \<open>Inr\<close> with the file system and
  the console output when the function returns.
\<close>

definition generateAndInjectAwsManagedRuleEnum ::
  "error + ListAvailableManagedRuleGroupsResponse \<Rightarrow> FileSystem \<Rightarrow> error + FileSystem \<times> Console" where
  "generateAndInjectAwsManagedRuleEnum send fs =
     (case generateAndInject_try send fs of
        Inl e \<Rightarrow> Inr (fs, ConsoleError (lit ''Error generating and injecting enum:'') e)
      | Inr (fs', line) \<Rightarrow> Inr (fs', ConsoleLog line))"

subsection \<open>Concrete files and responses\<close>

definition rule0 :: ManagedRuleGroupSummary where
  "rule0 = \<lparr> Name = Some (lit ''AWSManagedRulesPHPRuleSet''),
              Description = Some (lit ''PHP rules'') \<rparr>"

definition send0 :: "error + ListAvailableManagedRuleGroupsResponse" where
  "send0 = Inr \<lparr> ManagedRuleGroups = Some [rule0] \<rparr>"

definition enum0 :: jsstring where
  "enum0 = enumStringOf (ruleGroupMapOf [rule0])"

definition content0 :: jsstring where
  "content0 = lit ''ab'' @ startMarker @ lit ''old'' @ endMarker @ lit ''cd''"

definition fsWaf :: FileSystem where
  "fsWaf = \<lparr> files = [filePath \<mapsto> content0], readOnly = [] \<rparr>"

definition fsEmpty :: FileSystem where
  "fsEmpty = \<lparr> files = Map.empty, readOnly = [] \<rparr>"

text \<open>A file in which the end marker stands before the start marker.\<close>

definition reversedMarkers :: jsstring where
  "reversedMarkers = endMarker @ startMarker"

definition reversedOnce :: jsstring where
  "reversedOnce = reversedMarkers @ [nl] @ enum0 @ [nl] @ lit ''    '' @ reversedMarkers"

definition fsReversed :: FileSystem where
  "fsReversed = \<lparr> files = [filePath \<mapsto> reversedMarkers], readOnly = [] \<rparr>"

section \<open>The generator of the README library section (update-readme-library.ts)\<close>

record DocItem =
  name :: jsstring
  description :: jsstring

text \<open>
  \<open>parseApiDoc\<close> creates each item as an object and pushes the object on one of its
  arrays. An object of the model is a pair of its address and its fields. The loop
  creates at most one object in an iteration, so the index \<open>i\<close> of the iteration serves
  as the address of the object created there; the description of an object is assigned
  before the object is pushed or kept in \<open>currentItem\<close>, so its fields are final when
  the pair is formed.
\<close>

type_synonym DocItemObject = "nat \<times> DocItem"

record DocItems =
  constructs :: "DocItemObject list"
  aspects :: "DocItemObject list"
  patterns :: "DocItemObject list"

record ParseState = DocItems +
  inIgnoredSection :: bool
  currentItem :: "DocItemObject option"

text \<open>
  \<open>line.match(re)\<close> for the expression that looks for \<open>id=\<close>, a double quote, a group
  of one or more code units other than the double quote, and a double quote: the group
  of the leftmost match, if there is a match. \<open>idAttr\<close> is \<open>id=\<close> with the double quote.
\<close>

definition idAttr :: jsstring where
  "idAttr = lit ''id=''
     @ [dquote]"

fun matchId :: "jsstring \<Rightarrow> jsstring option" where
  "matchId [] = None"
| "matchId (c # s) =
     (if startsWith (c # s) idAttr
      then (let body = drop (length idAttr) (c # s);
                v = takeWhile (\<lambda>x. x \<noteq> dquote) body;
                rest = dropWhile (\<lambda>x. x \<noteq> dquote) body
            in if v \<noteq> [] \<and> rest \<noteq> [] then Some v else matchId s)
      else matchId s)"

text \<open>
  The inner \<open>while\<close> loop over the lines that follow a header: the lines of the
  description. \<open>found\<close> is \<open>foundDescription\<close>.
\<close>

fun collectDescription :: "jsstring list \<Rightarrow> bool \<Rightarrow> jsstring list" where
  "collectDescription [] found = []"
| "collectDescription (l # ls) found =
     (let nextLine = trim l
      in if startsWith nextLine (lit ''#'') \<or> startsWith nextLine (lit ''---'') then []
         else if found \<and> nextLine = [] then []
         else if startsWith nextLine (lit ''- *Implements:*'') then collectDescription ls found
         else if nextLine \<noteq> [] then nextLine # collectDescription ls True
         else collectDescription ls found)"

text \<open>
  The first block of the header branch: an item left in \<open>currentItem\<close> by an earlier
  header is pushed according to the id of the present line.
\<close>

definition pushPrevious :: "jsstring \<Rightarrow> ParseState \<Rightarrow> ParseState" where
  "pushPrevious line st =
     (case currentItem st of
        None \<Rightarrow> st
      | Some cur \<Rightarrow>
          (case matchId line of
             None \<Rightarrow> st
           | Some idMatch \<Rightarrow>
               (let id = toLowerCase idMatch
                in if includesStr id (lit ''.patterns.'')
                   then st \<lparr> patterns := patterns st @ [cur] \<rparr>
                   else if includesStr id (lit ''.aspects.'')
                   then st \<lparr> aspects := aspects st @ [cur] \<rparr>
                   else if includesStr id (lit ''.constructs.'') \<or> \<not> includesStr id (lit ''.types.'')
                   then st \<lparr> constructs := constructs st @ [cur] \<rparr>
                   else st)))"

text \<open>The second block: the item of the present header.\<close>

definition newItem :: "jsstring list \<Rightarrow> nat \<Rightarrow> jsstring \<Rightarrow> DocItemObject" where
  "newItem lines i line =
     (let name' = (case split (replaceFirst line (lit ''### '') []) 32 of
                     [] \<Rightarrow> [] | x # _ \<Rightarrow> x);
          description' = collectDescription (drop (i + 1) lines) False
      in (i, \<lparr> name = name',
               description = (if length description' > 0 then join description' (lit '' '')
                              else []) \<rparr>))"

definition processHeader :: "jsstring list \<Rightarrow> nat \<Rightarrow> jsstring \<Rightarrow> ParseState \<Rightarrow> ParseState" where
  "processHeader lines i line st0 =
     (let st = pushPrevious line st0
      in (case matchId line of
            None \<Rightarrow> st
          | Some idMatch \<Rightarrow>
              (let id = toLowerCase idMatch
               in if includesStr id (lit ''.types.'')
                  then st \<lparr> currentItem := None \<rparr>
                  else
                    (let item = newItem lines i line
                     in if includesStr id (lit ''.patterns.'')
                        then st \<lparr> patterns := patterns st @ [item], currentItem := None \<rparr>
                        else if includesStr id (lit ''.aspects.'')
                        then st \<lparr> aspects := aspects st @ [item], currentItem := None \<rparr>
                        else if includesStr id (lit ''.constructs.'')
                        then st \<lparr> constructs := constructs st @ [item], currentItem := None \<rparr>
                        else st \<lparr> currentItem := Some item \<rparr>))))"

text \<open>One iteration of the \<open>for\<close> loop, on the line of index \<open>i\<close>.\<close>

definition parseLine :: "jsstring list \<Rightarrow> nat \<Rightarrow> ParseState \<Rightarrow> ParseState" where
  "parseLine lines i st0 =
     (let line = trim (lines ! i)
      in if startsWith line (lit ''## '')
            \<and> (startsWith line (lit ''## Structs'') \<or> startsWith line (lit ''## Enum''))
         then st0 \<lparr> inIgnoredSection := True \<rparr>
         else
           (let st = (if startsWith line (lit ''## '')
                      then st0 \<lparr> inIgnoredSection := False \<rparr> else st0)
            in if inIgnoredSection st then st
               else if startsWith line (lit ''### '') \<and> includesStr line idAttr
               then processHeader lines i line st
               else st))"

function parseLoop :: "jsstring list \<Rightarrow> nat \<Rightarrow> ParseState \<Rightarrow> ParseState" where
  "parseLoop lines i st =
     (if i < length lines then parseLoop lines (i + 1) (parseLine lines i st) else st)"
  by pat_completeness auto
termination
  by (relation "measure (\<lambda>(lines, i, st). length lines - i)") auto

declare parseLoop.simps [simp del]

definition parseState0 :: ParseState where
  "parseState0 = \<lparr> constructs = [], aspects = [], patterns = [],
                    inIgnoredSection = False, currentItem = None \<rparr>"

definition parseContent :: "jsstring \<Rightarrow> DocItems" where
  "parseContent content =
     (let lines = split content nl;
          st = parseLoop lines 0 parseState0;
          st' = (case currentItem st of
                   None \<Rightarrow> st
                 | Some cur \<Rightarrow> st \<lparr> constructs := constructs st @ [cur] \<rparr>)
      in \<lparr> constructs = constructs st', aspects = aspects st', patterns = patterns st' \<rparr>)"

definition parseApiDoc :: "FileSystem \<Rightarrow> jsstring \<Rightarrow> error + DocItems" where
  "parseApiDoc fs path =
     (case readFileSync fs path of
        Inl e \<Rightarrow> Inl e
      | Inr content \<Rightarrow> Inr (parseContent content))"

subsection \<open>generateMarkdown\<close>

text \<open>
  \<open>.replace(re, '-')\<close> for the global expression of one or more white space
  characters: every run of white space becomes one hyphen.
\<close>

function replaceSpaces :: "jsstring \<Rightarrow> jsstring" where
  "replaceSpaces [] = []"
| "replaceSpaces (c # s) =
     (if isSpace c then 45 # replaceSpaces (dropWhile isSpace s) else c # replaceSpaces s)"
  by pat_completeness auto
termination
  by (relation "measure length") (auto simp: less_Suc_eq_le length_dropWhile_le)

definition itemLine :: "DocItem \<Rightarrow> jsstring" where
  "itemLine item =
     (let anchor = replaceSpaces (toLowerCase (name item))
      in lit ''- [**'' @ name item @ lit ''**](API.md#'' @ anchor @ lit ''-): ''
         @ description item @ [nl])"

definition constructsHeading :: jsstring where
  "constructsHeading = lit ''### ''
     @ [0xD83E, 0xDDF1]
     @ lit '' Constructs''
     @ [nl, nl]"

definition constructsText :: jsstring where
  "constructsText =
     lit ''Constructs are the basic building blocks of AWS Cloud Development Kit ''
     @ lit ''(AWS CDK) applications. A construct is a component within your applica''
     @ lit ''tion that represents one or more AWS CloudFormation resources and thei''
     @ lit ''r configuration. You build your application, piece by piece, by import''
     @ lit ''ing and configuring constructs. To learn more about constructs, check ''
     @ lit ''out the [AWS CDK documentation](https://docs.aws.amazon.com/cdk/v2/gui''
     @ lit ''de/constructs.html).''
     @ [nl, nl]"

definition aspectsHeading :: jsstring where
  "aspectsHeading = [nl]
     @ lit ''### ''
     @ [0xD83C, 0xDFAD]
     @ lit '' Aspects''
     @ [nl, nl]"

definition aspectsText :: jsstring where
  "aspectsText =
     lit ''Aspects are a way to apply an operation to all constructs in a given s''
     @ lit ''cope. The aspect could modify the constructs, such as by adding tags. ''
     @ lit ''Or it could verify something about the state of the constructs, such a''
     @ lit ''s making sure that all buckets are encrypted. To learn more about aspe''
     @ lit ''cts, check out the [AWS CDK documentation](https://docs.aws.amazon.com''
     @ lit ''/cdk/v2/guide/aspects.html).''
     @ [nl, nl]"

definition patternsHeading :: jsstring where
  "patternsHeading = [nl]
     @ lit ''### ''
     @ [0xD83C, 0xDFAF]
     @ lit '' Patterns''
     @ [nl, nl]"

definition patternsText :: jsstring where
  "patternsText =
     lit ''Patterns are higher-level abstractions that combine multiple construct''
     @ lit ''s and their configurations to form an opinionated solution. They help ''
     @ lit ''developers implement best practices and reduce the amount of code need''
     @ lit ''ed to build well-architected infrastructure. Patterns typically orches''
     @ lit ''trate multiple AWS services together in a way that follows AWS best pr''
     @ lit ''actices. To learn more about patterns, check out the [AWS CDK document''
     @ lit ''ation](https://docs.aws.amazon.com/cdk/v2/guide/constructs.html#constr''
     @ lit ''ucts_lib_levels).''
     @ [nl, nl]"

definition generateMarkdown :: "DocItem list \<Rightarrow> DocItem list \<Rightarrow> DocItem list \<Rightarrow> jsstring" where
  "generateMarkdown cs as ps =
     lit ''Total: '' @ decimal (length cs + length as + length ps) @ [nl, nl]
     @ constructsHeading
     @ constructsText
     @ lit ''Count: '' @ decimal (length cs) @ [nl, nl]
     @ concat (map itemLine cs)
     @ aspectsHeading
     @ aspectsText
     @ lit ''Count: '' @ decimal (length as) @ [nl, nl]
     @ concat (map itemLine as)
     @ patternsHeading
     @ patternsText
     @ lit ''Count: '' @ decimal (length ps) @ [nl, nl]
     @ concat (map itemLine ps)"

subsection \<open>The script\<close>

definition libraryHeading :: jsstring where
  "libraryHeading = lit ''## ''
     @ [0xD83D, 0xDCDA]
     @ lit '' Library''"

definition libraryIntro :: jsstring where
  "libraryIntro =
     [nl, nl]
     @ lit ''The library consists of [constructs](#-constructs), [aspects](#-aspect''
     @ lit ''s), and [patterns](#-patterns) that you can utilize in AWS CDK applica''
     @ lit ''tions.''
     @ [nl, nl]"

definition newLibrarySection :: "jsstring \<Rightarrow> jsstring" where
  "newLibrarySection markdown = libraryHeading @ libraryIntro @ markdown"

text \<open>
  \<open>readmeContent.replace(re, newLibrarySection)\<close>. The expression is the library
  heading, then lazily any code units, then a lookahead for a newline and \<open>## \<close> or for
  the end. It has no flag: it matches once, at the first place where the heading stands,
  and the lazy part takes as few code units as possible up to a place that is followed
  by a newline and \<open>## \<close>, or up to the end of the text (without the \<open>m\<close> flag the
  dollar of the expression is the end of the text). \<open>sectionLength\<close> is the number of
  code units the lazy part takes.
\<close>

fun sectionLength :: "jsstring \<Rightarrow> nat" where
  "sectionLength [] = 0"
| "sectionLength (c # s) =
     (if startsWith (c # s) (nl # lit ''## '') then 0 else Suc (sectionLength s))"

definition replaceLibrary :: "jsstring \<Rightarrow> jsstring \<Rightarrow> jsstring" where
  "replaceLibrary readmeContent replacement =
     (let i = indexOf readmeContent libraryHeading
      in if i = - 1 then readmeContent
         else
           (let preceding = take (nat i) readmeContent;
                rest = drop (nat i + length libraryHeading) readmeContent;
                n = sectionLength rest;
                matched = libraryHeading @ take n rest;
                following = drop n rest
            in preceding @ getSubstitution matched preceding following replacement
               @ following))"

definition apiPath :: jsstring where
  "apiPath = lit ''API.md''"

definition readmePath :: jsstring where
  "readmePath = lit ''README.md''"

text \<open>
  The statements of the script, top to bottom. Nothing in the script catches an error:
  \<open>Inl\<close> is an error that leaves the script.
\<close>

definition updateReadmeLibrary :: "FileSystem \<Rightarrow> error + FileSystem \<times> Console" where
  "updateReadmeLibrary fs =
     (case parseApiDoc fs apiPath of
        Inl e \<Rightarrow> Inl e
      | Inr apiData \<Rightarrow>
          (let markdown = generateMarkdown (map snd (constructs apiData))
                            (map snd (aspects apiData)) (map snd (patterns apiData))
           in (case readFileSync fs readmePath of
                 Inl e \<Rightarrow> Inl e
               | Inr readmeContent \<Rightarrow>
                   (let newReadme = replaceLibrary readmeContent (newLibrarySection markdown)
                    in (case writeFileSync fs readmePath newReadme of
                          Inl e \<Rightarrow> Inl e
                        | Inr fs' \<Rightarrow>
                            (let total = length (constructs apiData)
                                   + length (aspects apiData) + length (patterns apiData)
                             in Inr (fs', ConsoleLog (lit ''README updated -- count: ''
                                                       @ decimal total))))))))"

subsection \<open>What the claims read off the result of parseApiDoc\<close>

text \<open>
  The objects of the three returned arrays; the addresses in the arrays and in
  \<open>currentItem\<close>, as multisets; and the lines that can create an item: the headers
  that reach the second block with an id that does not hold \<open>.types.\<close>.
\<close>

definition allItems :: "DocItems \<Rightarrow> DocItemObject list" where
  "allItems d = constructs d @ aspects d @ patterns d"

definition listRefs :: "ParseState \<Rightarrow> nat multiset" where
  "listRefs st = mset (map fst (constructs st)) + mset (map fst (aspects st))
                 + mset (map fst (patterns st))"

definition currentRef :: "ParseState \<Rightarrow> nat multiset" where
  "currentRef st = (case currentItem st of None \<Rightarrow> {#} | Some c \<Rightarrow> {#fst c#})"

definition createsItem :: "jsstring list \<Rightarrow> nat \<Rightarrow> bool" where
  "createsItem lines r =
     (r < length lines \<and> startsWith (trim (lines ! r)) (lit ''### '')
      \<and> (case matchId (trim (lines ! r)) of
            None \<Rightarrow> False
          | Some v \<Rightarrow> \<not> includesStr (toLowerCase v) (lit ''.types.'')))"

definition parseInv :: "jsstring list \<Rightarrow> nat \<Rightarrow> ParseState \<Rightarrow> bool" where
  "parseInv lines i st =
     ((\<forall>r. count (listRefs st + currentRef st) r \<le> 1)
      \<and> (\<forall>r. r \<in># listRefs st + currentRef st \<longrightarrow> r < i \<and> createsItem lines r))"

subsection \<open>Concrete files\<close>

definition header :: "string \<Rightarrow> string \<Rightarrow> jsstring" where
  "header n i = lit ''### '' @ lit n @ lit '' <a id='' @ [dquote] @ lit i @ [dquote] @ lit ''></a>''"

definition api1 :: jsstring where
  "api1 = join
     [lit ''# API Reference'', lit ''## Constructs'', [],
      header ''Foo'' ''@x/lib.constructs.Foo'', [], lit ''- *Implements:* IFoo'', [],
      lit ''Foo does'', lit ''things.'', [], lit ''more'',
      header ''Bar'' ''@x/lib.other.Bar'', lit ''Bar desc'',
      header ''Asp'' ''@x/lib.aspects.Asp'', lit ''Asp desc'',
      header ''Ty'' ''@x/lib.types.Ty'', lit ''Ty desc'',
      lit ''## Structs'',
      header ''St'' ''@x/lib.constructs.St'', lit ''St desc'',
      lit ''## Classes'',
      header ''Pat'' ''@x/lib.patterns.Pat'', lit ''Pat desc'']
     [nl]"

text \<open>An API.md whose only item has a description with two dollar signs in a row.\<close>

definition apiDollar :: jsstring where
  "apiDollar = join [header ''Foo'' ''@x/lib.constructs.Foo'', lit ''costs $$5''] [nl]"

definition readme1 :: jsstring where
  "readme1 = lit ''# lib'' @ [nl] @ libraryHeading @ [nl] @ lit ''old'' @ [nl]
             @ lit ''## License'' @ [nl]"

definition fsReadme :: "jsstring \<Rightarrow> FileSystem" where
  "fsReadme api = \<lparr> files = [apiPath \<mapsto> api, readmePath \<mapsto> readme1], readOnly = [] \<rparr>"

definition apiTypes :: jsstring where
  "apiTypes = join [header ''Ty'' ''a.types.Ty'', header ''Foo'' ''a.constructs.Foo''] [nl]"

definition itemParsed :: DocItem where
  "itemParsed = \<lparr> name = lit ''Foo'', description = lit ''costs $$5'' \<rparr>"

definition itemWritten :: DocItem where
  "itemWritten = \<lparr> name = lit ''Foo'', description = lit ''costs $5'' \<rparr>"

text \<open>
  The section generated for these items, cut at the dollar signs of the description, and
  what follows the library heading in \<open>readme1\<close>.
\<close>

definition lineHead :: jsstring where
  "lineHead = lit ''- [**'' @ lit ''Foo'' @ lit ''**](API.md#''
              @ replaceSpaces (toLowerCase (lit ''Foo'')) @ lit ''-): '' @ lit ''costs ''"

definition sectionHead :: jsstring where
  "sectionHead = libraryHeading @ libraryIntro @ lit ''Total: '' @ decimal 1 @ [nl, nl]
     @ constructsHeading @ constructsText @ lit ''Count: '' @ decimal 1 @ [nl, nl] @ lineHead"

definition sectionTail :: jsstring where
  "sectionTail = lit ''5'' @ [nl] @ aspectsHeading @ aspectsText
     @ lit ''Count: '' @ decimal 0 @ [nl, nl]
     @ patternsHeading @ patternsText @ lit ''Count: '' @ decimal 0 @ [nl, nl]"

definition readme1Rest :: jsstring where
  "readme1Rest = [nl] @ lit ''old'' @ [nl] @ lit ''## License'' @ [nl]"

section \<open>Ec2ImageBuilderStart: validation at instantiation\<close>

lemma toSeconds_error:
  "toSeconds d = Inl e \<Longrightarrow> \<exists>m. e = UnscopedValidationError m"
  by (cases d) (auto split: if_splits)

lemma addChild_error:
  "addChild this r = Inl e \<Longrightarrow> \<exists>i. e = DuplicateConstructId i"
  by (auto simp: addChild_def split: if_splits)

lemma addChild_result:
  "addChild this r = Inr this' \<Longrightarrow> this' = this @ [r]"
  by (auto simp: addChild_def split: if_splits)

lemma waitForTopicSignal_error:
  assumes "waitForTopicSignal this h a props = Inl e"
  shows "(\<exists>i. e = DuplicateConstructId i) \<or> (\<exists>m. e = UnscopedValidationError m)"
  using assms
  by (auto simp: waitForTopicSignal_def Let_def
      split: option.splits sum.splits dest: addChild_error toSeconds_error)

lemma waitForTopicSignal_absent:
  "waitForCompletion props = None \<Longrightarrow> waitForTopicSignal this h a props = Inr this"
  by (simp add: waitForTopicSignal_def)

lemma waitForTopicSignal_given:
  assumes "waitForCompletion props = Some w"
      and "waitForTopicSignal this h a props = Inr this'"
  shows "\<exists>sp wp n.
           this' = this @ [CfnWaitConditionHandle (lit ''WaitHandle'' @ h),
                           NodejsFunction (lit ''WaiterSignal'') sp,
                           CfnWaitCondition (lit ''Waiter'' @ h) wp]
           \<and> eventSources sp = [topic w]
           \<and> handle wp = Ref (lit ''WaitHandle'' @ h)
           \<and> (case timeout w of None \<Rightarrow> Inr 43200 | Some d \<Rightarrow> toSeconds d) = Inr n
           \<and> waitTimeout wp = decimal n"
proof -
  let ?d = "case timeout w of None \<Rightarrow> hours 12 | Some d \<Rightarrow> d"
  have h12: "toSeconds (hours 12) = Inr 43200"
    by (simp add: hours_def)
  have d: "toSeconds ?d = (case timeout w of None \<Rightarrow> Inr 43200 | Some d \<Rightarrow> toSeconds d)"
    by (simp add: h12 split: option.splits)
  let ?sp = "\<lparr> minify = True,
                   entry = [lit ''handler'', lit ''index.ts''],
                   handler = lit ''index.handler'',
                   runtime = NODEJS_20_X,
                   reservedConcurrentExecutions = 5,
                   environment = [(lit ''WAIT_HANDLE_URL'', Ref (lit ''WaitHandle'' @ h)),
                                  (lit ''IMAGE_BUILD_ARN'', a)],
                   environmentEncryption = encryption props,
                   spread = lambdaConfiguration props,
                   eventSources = [topic w] \<rparr>"
  define sp where "sp = ?sp"
  have sp: "eventSources sp = [topic w]"
    by (simp add: sp_def)
  have u: "waitForTopicSignal this h a props =
      (case addChild this (CfnWaitConditionHandle (lit ''WaitHandle'' @ h)) of
         Inl e \<Rightarrow> Inl e
       | Inr this1 \<Rightarrow>
           (case addChild this1 (NodejsFunction (lit ''WaiterSignal'') sp) of
              Inl e \<Rightarrow> Inl e
            | Inr this2 \<Rightarrow>
                (case toSeconds ?d of
                   Inl e \<Rightarrow> Inl e
                 | Inr seconds \<Rightarrow>
                     addChild this2
                       (CfnWaitCondition (lit ''Waiter'' @ h)
                          \<lparr> handle = Ref (lit ''WaitHandle'' @ h),
                            waitTimeout = decimal seconds,
                            dependsOn = [lit ''WaiterSignal''] \<rparr>))))"
    unfolding waitForTopicSignal_def assms(1) Let_def sp_def by simp
  obtain this1 where t1: "addChild this (CfnWaitConditionHandle (lit ''WaitHandle'' @ h)) = Inr this1"
    using assms(2) unfolding u
    by (cases "addChild this (CfnWaitConditionHandle (lit ''WaitHandle'' @ h))") auto
  have u1: "(case addChild this1 (NodejsFunction (lit ''WaiterSignal'') sp) of
              Inl e \<Rightarrow> Inl e
            | Inr this2 \<Rightarrow>
                (case toSeconds ?d of
                   Inl e \<Rightarrow> Inl e
                 | Inr seconds \<Rightarrow>
                     addChild this2
                       (CfnWaitCondition (lit ''Waiter'' @ h)
                          \<lparr> handle = Ref (lit ''WaitHandle'' @ h),
                            waitTimeout = decimal seconds,
                            dependsOn = [lit ''WaiterSignal''] \<rparr>))) = Inr this'"
    using assms(2) by (simp add: u t1)
  obtain this2 where t2: "addChild this1 (NodejsFunction (lit ''WaiterSignal'') sp) = Inr this2"
    using u1
    by (cases "addChild this1 (NodejsFunction (lit ''WaiterSignal'') sp)") auto
  have u2: "(case toSeconds ?d of
                   Inl e \<Rightarrow> Inl e
                 | Inr seconds \<Rightarrow>
                     addChild this2
                       (CfnWaitCondition (lit ''Waiter'' @ h)
                          \<lparr> handle = Ref (lit ''WaitHandle'' @ h),
                            waitTimeout = decimal seconds,
                            dependsOn = [lit ''WaiterSignal''] \<rparr>)) = Inr this'"
    using u1 by (simp add: t2)
  obtain n where n: "toSeconds ?d = Inr n"
    using u2
    by (cases "toSeconds ?d") auto
  have t3: "addChild this2 (CfnWaitCondition (lit ''Waiter'' @ h)
                  \<lparr> handle = Ref (lit ''WaitHandle'' @ h), waitTimeout = decimal n,
                    dependsOn = [lit ''WaiterSignal''] \<rparr>) = Inr this'"
    using u2 by (simp add: n)
  have "this' = this @ [CfnWaitConditionHandle (lit ''WaitHandle'' @ h),
                           NodejsFunction (lit ''WaiterSignal'') sp,
                           CfnWaitCondition (lit ''Waiter'' @ h)
                             \<lparr> handle = Ref (lit ''WaitHandle'' @ h), waitTimeout = decimal n,
                               dependsOn = [lit ''WaiterSignal''] \<rparr>]"
    using addChild_result [OF t1] addChild_result [OF t2] addChild_result [OF t3] by simp
  then show ?thesis
    using sp n d by auto
qed

text \<open>The constructor, check by check.\<close>

lemma ctor_unfold:
  "Ec2ImageBuilderStart_constructor awsArn props =
     (case timeoutSeconds props of
        Inl e \<Rightarrow> Inl e
      | Inr n \<Rightarrow>
          if 43200 < n then Inl timeoutError
          else if 7 < hashLength props then Inl hashError
          else if \<not> awsArn (pipelineArn props) then Inl (ValidationError (pipelineArn props))
          else (case waitForTopicSignal [customResourceOf props] (thisHash props) responseArn props of
                  Inl e \<Rightarrow> Inl e
                | Inr this \<Rightarrow> Inr \<lparr> imageBuildVersionArn = responseArn, children = this \<rparr>))"
  by (simp add: Ec2ImageBuilderStart_constructor_def timeoutSeconds_def hashLength_def
      timeoutError_def hashError_def validate_def customResourceOf_def responseArn_def
      addChild_def Let_def split: sum.splits)

lemma bound_errors_differ:
  "timeoutError \<noteq> hashError"
  by (simp add: timeoutError_def hashError_def lit_def)

lemma ctor_toSeconds_throws:
  "timeoutSeconds props = Inl e \<Longrightarrow> Ec2ImageBuilderStart_constructor awsArn props = Inl e"
  by (simp add: ctor_unfold)

lemma ctor_timeout:
  "timeoutSeconds props = Inr n \<Longrightarrow> 43200 < n \<Longrightarrow>
     Ec2ImageBuilderStart_constructor awsArn props = Inl timeoutError"
  by (simp add: ctor_unfold)

lemma ctor_hash:
  "timeoutSeconds props = Inr n \<Longrightarrow> n \<le> 43200 \<Longrightarrow> 7 < hashLength props \<Longrightarrow>
     Ec2ImageBuilderStart_constructor awsArn props = Inl hashError"
  by (simp add: ctor_unfold)

lemma ctor_Inr:
  assumes "Ec2ImageBuilderStart_constructor awsArn props = Inr c"
  shows "\<exists>n. timeoutSeconds props = Inr n \<and> n \<le> 43200"
    and "hashLength props \<le> 7"
    and "awsArn (pipelineArn props)"
    and "waitForTopicSignal [customResourceOf props] (thisHash props) responseArn props
           = Inr (children c)"
  using assms
  by (auto simp: ctor_unfold split: sum.splits if_splits)

lemma ctor_throws:
  assumes "(\<exists>n. timeoutSeconds props = Inr n \<and> 43200 < n) \<or> (\<exists>e. timeoutSeconds props = Inl e)
           \<or> 7 < hashLength props \<or> \<not> awsArn (pipelineArn props)"
  shows "\<exists>e. Ec2ImageBuilderStart_constructor awsArn props = Inl e"
proof (cases "Ec2ImageBuilderStart_constructor awsArn props")
  case (Inl e)
  then show ?thesis by blast
next
  case (Inr c)
  then show ?thesis
    using assms ctor_Inr(1) [OF Inr] ctor_Inr(2) [OF Inr] ctor_Inr(3) [OF Inr] by auto
qed

text \<open>
  C1, as stated, fails: with a hash of more than 7 code units and a timeout of more
  than 43200 seconds the error thrown is 'Timeout cannot exceed 12 hours', not 'Hash
  must be 7 characters or less'.
\<close>

theorem C1_hash_and_timeout_counterexample:
  "7 < hashLength propsBoth
   \<and> Ec2ImageBuilderStart_constructor isArn0 propsBoth = Inl timeoutError
   \<and> Ec2ImageBuilderStart_constructor isArn0 propsBoth \<noteq> Inl hashError"
proof -
  have h: "7 < hashLength propsBoth"
    by (simp add: propsBoth_def props0_def hashLength_def lit_def)
  have t: "timeoutSeconds propsBoth = Inr 43201"
    by (simp add: propsBoth_def props0_def timeoutSeconds_def)
  have "Ec2ImageBuilderStart_constructor isArn0 propsBoth = Inl timeoutError"
    by (rule ctor_timeout [OF t]) simp
  then show ?thesis
    using h bound_errors_differ by simp
qed

text \<open>
  C1, amended: the constructor validates its input when the construct is instantiated,
  check by check. If \<open>toSeconds()\<close> of the timeout returns more than 43200, the error
  'Timeout cannot exceed 12 hours' is thrown; if \<open>toSeconds()\<close> itself throws (the
  timeout is no whole number of seconds), that error is thrown; if the timeout check has
  passed and the hash has more than 7 code units, 'Hash must be 7 characters or less' is
  thrown; a pipeline ARN that is not in the ARN format throws. Whenever one of the three
  validations fails the constructor throws, so that no construct, and no custom resource
  in it, is returned.
\<close>

theorem C1_validation_throws:
  "(\<forall>n. timeoutSeconds props = Inr n \<and> 43200 < n \<longrightarrow>
      Ec2ImageBuilderStart_constructor awsArn props = Inl timeoutError)
   \<and> (\<forall>e. timeoutSeconds props = Inl e \<longrightarrow>
      Ec2ImageBuilderStart_constructor awsArn props = Inl e)
   \<and> (\<forall>n. timeoutSeconds props = Inr n \<and> n \<le> 43200 \<and> 7 < hashLength props \<longrightarrow>
      Ec2ImageBuilderStart_constructor awsArn props = Inl hashError)
   \<and> (\<not> awsArn (pipelineArn props) \<longrightarrow>
      (\<exists>e. Ec2ImageBuilderStart_constructor awsArn props = Inl e))
   \<and> ((\<exists>n. timeoutSeconds props = Inr n \<and> 43200 < n) \<or> (\<exists>e. timeoutSeconds props = Inl e)
        \<or> 7 < hashLength props \<or> \<not> awsArn (pipelineArn props) \<longrightarrow>
      (\<exists>e. Ec2ImageBuilderStart_constructor awsArn props = Inl e)
      \<and> (\<forall>c. Ec2ImageBuilderStart_constructor awsArn props \<noteq> Inr c))"
proof -
  have a: "\<forall>n. timeoutSeconds props = Inr n \<and> 43200 < n \<longrightarrow>
      Ec2ImageBuilderStart_constructor awsArn props = Inl timeoutError"
    using ctor_timeout by blast
  have b: "\<forall>e. timeoutSeconds props = Inl e \<longrightarrow>
      Ec2ImageBuilderStart_constructor awsArn props = Inl e"
    using ctor_toSeconds_throws by blast
  have c: "\<forall>n. timeoutSeconds props = Inr n \<and> n \<le> 43200 \<and> 7 < hashLength props \<longrightarrow>
      Ec2ImageBuilderStart_constructor awsArn props = Inl hashError"
    using ctor_hash by blast
  have e: "(\<exists>e. Ec2ImageBuilderStart_constructor awsArn props = Inl e)
      \<and> (\<forall>c. Ec2ImageBuilderStart_constructor awsArn props \<noteq> Inr c)"
    if "(\<exists>n. timeoutSeconds props = Inr n \<and> 43200 < n) \<or> (\<exists>e. timeoutSeconds props = Inl e)
        \<or> 7 < hashLength props \<or> \<not> awsArn (pipelineArn props)"
    using ctor_throws [where awsArn = awsArn and props = props] that by auto
  have d: "\<not> awsArn (pipelineArn props) \<longrightarrow>
      (\<exists>e. Ec2ImageBuilderStart_constructor awsArn props = Inl e)"
    using e by blast
  have e': "(\<exists>n. timeoutSeconds props = Inr n \<and> 43200 < n) \<or> (\<exists>e. timeoutSeconds props = Inl e)
        \<or> 7 < hashLength props \<or> \<not> awsArn (pipelineArn props) \<longrightarrow>
      (\<exists>e. Ec2ImageBuilderStart_constructor awsArn props = Inl e)
      \<and> (\<forall>c. Ec2ImageBuilderStart_constructor awsArn props \<noteq> Inr c)"
    by (rule impI, rule e, assumption)
  show ?thesis
    using a b c d e' by (intro conjI) assumption+
qed

lemma concrete_timeouts:
  "timeoutSeconds propsLongTimeout = Inr 43201"
  "timeoutSeconds propsLongHash = Inr 0"
  "timeoutSeconds propsBadArn = Inr 0"
  "\<exists>m. timeoutSeconds propsMillis = Inl (UnscopedValidationError m)"
  "timeoutSeconds propsAtBounds = Inr 43200"
  "timeoutSeconds propsWait = Inr 0"
  "timeoutSeconds propsSignal = Inr 0"
  by (simp_all add: propsLongTimeout_def propsLongHash_def propsBadArn_def propsMillis_def
      propsAtBounds_def propsWait_def propsSignal_def props0_def timeoutSeconds_def hours_def)

theorem C1_validation_throws_witness:
  "timeoutSeconds propsLongTimeout = Inr 43201
   \<and> Ec2ImageBuilderStart_constructor isArn0 propsLongTimeout = Inl timeoutError
   \<and> (\<exists>m. timeoutSeconds propsMillis = Inl (UnscopedValidationError m)
          \<and> Ec2ImageBuilderStart_constructor isArn0 propsMillis = Inl (UnscopedValidationError m))
   \<and> timeoutSeconds propsLongHash = Inr 0 \<and> 7 < hashLength propsLongHash
   \<and> Ec2ImageBuilderStart_constructor isArn0 propsLongHash = Inl hashError
   \<and> \<not> isArn0 (pipelineArn propsBadArn)
   \<and> (\<exists>e. Ec2ImageBuilderStart_constructor isArn0 propsBadArn = Inl e)
   \<and> (\<forall>c. Ec2ImageBuilderStart_constructor isArn0 propsBadArn \<noteq> Inr c)"
proof -
  have b: "7 < hashLength propsLongHash"
    by (simp add: propsLongHash_def props0_def hashLength_def lit_def)
  have c: "\<not> isArn0 (pipelineArn propsBadArn)"
    by (simp add: propsBadArn_def props0_def isArn0_def lit_def)
  obtain m where m: "timeoutSeconds propsMillis = Inl (UnscopedValidationError m)"
    using concrete_timeouts(4) by blast
  have t: "Ec2ImageBuilderStart_constructor isArn0 propsLongTimeout = Inl timeoutError"
    using C1_validation_throws [where awsArn = isArn0 and props = propsLongTimeout,
        THEN conjunct1, rule_format, of 43201] concrete_timeouts(1)
    by simp
  have u: "Ec2ImageBuilderStart_constructor isArn0 propsMillis = Inl (UnscopedValidationError m)"
    using C1_validation_throws [where awsArn = isArn0 and props = propsMillis,
        THEN conjunct2, THEN conjunct1, rule_format, OF m] .
  have h: "Ec2ImageBuilderStart_constructor isArn0 propsLongHash = Inl hashError"
    using C1_validation_throws [where awsArn = isArn0 and props = propsLongHash,
        THEN conjunct2, THEN conjunct2, THEN conjunct1, rule_format, of 0]
      concrete_timeouts(2) b
    by simp
  have v: "(\<exists>n. timeoutSeconds propsBadArn = Inr n \<and> 43200 < n)
        \<or> (\<exists>e. timeoutSeconds propsBadArn = Inl e)
        \<or> 7 < hashLength propsBadArn \<or> \<not> isArn0 (pipelineArn propsBadArn)"
    using c by simp
  have d: "(\<exists>e. Ec2ImageBuilderStart_constructor isArn0 propsBadArn = Inl e)
      \<and> (\<forall>c. Ec2ImageBuilderStart_constructor isArn0 propsBadArn \<noteq> Inr c)"
    using C1_validation_throws [where awsArn = isArn0 and props = propsBadArn,
        THEN conjunct2, THEN conjunct2, THEN conjunct2, THEN conjunct2, THEN mp, OF v] .
  have um: "\<exists>m. timeoutSeconds propsMillis = Inl (UnscopedValidationError m)
          \<and> Ec2ImageBuilderStart_constructor isArn0 propsMillis = Inl (UnscopedValidationError m)"
    using m u by blast
  show ?thesis
    using concrete_timeouts(1,2) t um b h c d by simp
qed

section \<open>Ec2ImageBuilderStart: the bounds\<close>

lemma ctor_timeoutError_iff:
  "(Ec2ImageBuilderStart_constructor awsArn props = Inl timeoutError) =
     (\<exists>n. timeoutSeconds props = Inr n \<and> 43200 < n)"
proof
  assume t: "Ec2ImageBuilderStart_constructor awsArn props = Inl timeoutError"
  show "\<exists>n. timeoutSeconds props = Inr n \<and> 43200 < n"
  proof (cases "timeoutSeconds props")
    case (Inl e)
    then have "e = timeoutError" using t by (simp add: ctor_unfold)
    moreover obtain m where "e = UnscopedValidationError m"
      using Inl toSeconds_error
      by (auto simp: timeoutSeconds_def split: option.splits)
    ultimately show ?thesis by (simp add: timeoutError_def)
  next
    case (Inr n)
    show ?thesis
    proof (cases "43200 < n")
      case True
      then show ?thesis using Inr by blast
    next
      case False
      have "False"
      proof (cases "7 < hashLength props")
        case True
        then show False
          using t Inr False bound_errors_differ by (simp add: ctor_unfold)
      next
        case h: False
        show False
        proof (cases "awsArn (pipelineArn props)")
          case False
          then show False
            using t Inr \<open>\<not> 43200 < n\<close> h by (simp add: ctor_unfold timeoutError_def)
        next
          case True
          then obtain e where
            w: "waitForTopicSignal [customResourceOf props] (thisHash props) responseArn props = Inl e"
            and e: "e = timeoutError"
            using t Inr \<open>\<not> 43200 < n\<close> h by (auto simp: ctor_unfold split: sum.splits)
          show False
            using waitForTopicSignal_error [OF w] e by (auto simp: timeoutError_def)
        qed
      qed
      then show ?thesis ..
    qed
  qed
next
  assume "\<exists>n. timeoutSeconds props = Inr n \<and> 43200 < n"
  then show "Ec2ImageBuilderStart_constructor awsArn props = Inl timeoutError"
    using ctor_timeout by blast
qed

lemma ctor_hashError_iff:
  "(Ec2ImageBuilderStart_constructor awsArn props = Inl hashError) =
     (\<exists>n. timeoutSeconds props = Inr n \<and> n \<le> 43200 \<and> 7 < hashLength props)"
proof
  assume t: "Ec2ImageBuilderStart_constructor awsArn props = Inl hashError"
  show "\<exists>n. timeoutSeconds props = Inr n \<and> n \<le> 43200 \<and> 7 < hashLength props"
  proof (cases "timeoutSeconds props")
    case (Inl e)
    then have "e = hashError" using t by (simp add: ctor_unfold)
    moreover obtain m where "e = UnscopedValidationError m"
      using Inl toSeconds_error
      by (auto simp: timeoutSeconds_def split: option.splits)
    ultimately show ?thesis by (simp add: hashError_def)
  next
    case (Inr n)
    have le: "n \<le> 43200"
    proof (rule ccontr)
      assume "\<not> n \<le> 43200"
      then show False
        using t Inr bound_errors_differ by (simp add: ctor_unfold)
    qed
    have "7 < hashLength props"
    proof (rule ccontr)
      assume h: "\<not> 7 < hashLength props"
      show False
      proof (cases "awsArn (pipelineArn props)")
        case False
        then show False
          using t Inr le h by (simp add: ctor_unfold hashError_def)
      next
        case True
        then obtain e where
          w: "waitForTopicSignal [customResourceOf props] (thisHash props) responseArn props = Inl e"
          and e: "e = hashError"
          using t Inr le h by (auto simp: ctor_unfold split: sum.splits)
        show False
          using waitForTopicSignal_error [OF w] e by (auto simp: hashError_def)
      qed
    qed
    then show ?thesis using Inr le by blast
  qed
next
  assume "\<exists>n. timeoutSeconds props = Inr n \<and> n \<le> 43200 \<and> 7 < hashLength props"
  then show "Ec2ImageBuilderStart_constructor awsArn props = Inl hashError"
    using ctor_hash by blast
qed

text \<open>
  C9, as stated, fails: the constructor also throws when neither bound is exceeded. With
  a timeout of 1500 milliseconds \<open>toSeconds()\<close> throws, and with the hash 'Signal' and
  waitForCompletion the wait condition gets the id of the signal Lambda and the
  construct tree throws.
\<close>

theorem C9_other_throws_counterexample:
  "hashLength propsMillis = 0
   \<and> Ec2ImageBuilderStart_constructor isArn0 propsMillis =
       Inl (UnscopedValidationError
              ([39] @ decimal 1500 @ lit '' '' @ lit ''millis'' @ [39]
               @ lit '' cannot be converted into a whole number of seconds.''))
   \<and> timeoutSeconds propsSignal = Inr 0 \<and> hashLength propsSignal = 6
   \<and> Ec2ImageBuilderStart_constructor isArn0 propsSignal =
       Inl (DuplicateConstructId (lit ''WaiterSignal''))"
proof -
  have m: "timeoutSeconds propsMillis =
       Inl (UnscopedValidationError
              ([39] @ decimal 1500 @ lit '' '' @ lit ''millis'' @ [39]
               @ lit '' cannot be converted into a whole number of seconds.''))"
    by (simp add: propsMillis_def props0_def timeoutSeconds_def)
  have hm: "hashLength propsMillis = 0"
    by (simp add: propsMillis_def props0_def hashLength_def)
  have hs: "hashLength propsSignal = 6"
    by (simp add: propsSignal_def props0_def hashLength_def lit_def)
  have arn: "isArn0 (pipelineArn propsSignal)"
    by (simp add: propsSignal_def props0_def isArn0_def arn0_def lit_def)
  have th: "thisHash propsSignal = lit ''Signal''"
    by (simp add: propsSignal_def props0_def thisHash_def)
  have w: "waitForCompletion propsSignal = Some \<lparr> topic = Topic (lit ''t''), timeout = None \<rparr>"
    by (simp add: propsSignal_def props0_def)
  have ids: "lit ''Waiter'' @ lit ''Signal'' = lit ''WaiterSignal''"
    "lit ''WaitHandle'' @ lit ''Signal'' \<noteq> lit ''Ec2ImageBuilderStartCr''"
    "lit ''WaiterSignal'' \<noteq> lit ''Ec2ImageBuilderStartCr''"
    "lit ''WaiterSignal'' \<noteq> lit ''WaitHandle'' @ lit ''Signal''"
    by (simp_all add: lit_def)
  have "waitForTopicSignal [customResourceOf propsSignal] (lit ''Signal'') responseArn propsSignal
      = Inl (DuplicateConstructId (lit ''WaiterSignal''))"
    by (simp add: waitForTopicSignal_def w Let_def addChild_def customResourceOf_def ids
        hours_def)
  then have "Ec2ImageBuilderStart_constructor isArn0 propsSignal =
       Inl (DuplicateConstructId (lit ''WaiterSignal''))"
    using concrete_timeouts(7) hs arn th by (simp add: ctor_unfold)
  then show ?thesis
    using m hm hs concrete_timeouts(7) ctor_toSeconds_throws [OF m, of isArn0] by simp
qed

text \<open>
  C9, amended: the two bound checks are strict. The constructor throws 'Timeout cannot
  exceed 12 hours' exactly when \<open>toSeconds()\<close> of the timeout returns more than 43200,
  and 'Hash must be 7 characters or less' exactly when the timeout check has passed and
  the hash has more than 7 code units; so with a timeout of exactly 43200 seconds and a
  hash of exactly 7 code units neither bound check throws. (The constructor can throw
  for other reasons.)
\<close>

theorem C9_bounds_strict:
  "((Ec2ImageBuilderStart_constructor awsArn props = Inl timeoutError) =
      (\<exists>n. timeoutSeconds props = Inr n \<and> 43200 < n))
   \<and> ((Ec2ImageBuilderStart_constructor awsArn props = Inl hashError) =
      (\<exists>n. timeoutSeconds props = Inr n \<and> n \<le> 43200 \<and> 7 < hashLength props))
   \<and> (timeoutSeconds props = Inr 43200 \<and> hashLength props = 7 \<longrightarrow>
        Ec2ImageBuilderStart_constructor awsArn props \<noteq> Inl timeoutError
        \<and> Ec2ImageBuilderStart_constructor awsArn props \<noteq> Inl hashError)"
proof -
  have "Ec2ImageBuilderStart_constructor awsArn props \<noteq> Inl timeoutError
        \<and> Ec2ImageBuilderStart_constructor awsArn props \<noteq> Inl hashError"
    if "timeoutSeconds props = Inr 43200 \<and> hashLength props = 7"
    using that by (simp add: ctor_timeoutError_iff ctor_hashError_iff)
  then show ?thesis
    using ctor_timeoutError_iff [of awsArn props] ctor_hashError_iff [of awsArn props]
    by blast
qed

lemma propsAtBounds_accepted:
  "\<exists>c. Ec2ImageBuilderStart_constructor isArn0 propsAtBounds = Inr c"
proof -
  have arn: "isArn0 (pipelineArn propsAtBounds)"
    by (simp add: propsAtBounds_def props0_def isArn0_def arn0_def lit_def)
  have h: "hashLength propsAtBounds = 7"
    by (simp add: propsAtBounds_def props0_def hashLength_def lit_def)
  have th: "thisHash propsAtBounds = lit ''1234567''"
    by (simp add: propsAtBounds_def props0_def thisHash_def)
  have w: "waitForCompletion propsAtBounds =
      Some \<lparr> topic = Topic (lit ''t''), timeout = Some (hours 12) \<rparr>"
    by (simp add: propsAtBounds_def props0_def)
  have ids: "lit ''WaitHandle'' @ lit ''1234567'' \<noteq> lit ''Ec2ImageBuilderStartCr''"
    "lit ''WaiterSignal'' \<noteq> lit ''Ec2ImageBuilderStartCr''"
    "lit ''WaiterSignal'' \<noteq> lit ''WaitHandle'' @ lit ''1234567''"
    "lit ''Waiter'' @ lit ''1234567'' \<noteq> lit ''Ec2ImageBuilderStartCr''"
    "lit ''Waiter'' @ lit ''1234567'' \<noteq> lit ''WaitHandle'' @ lit ''1234567''"
    "lit ''Waiter'' @ lit ''1234567'' \<noteq> lit ''WaiterSignal''"
    "lit ''Waiter'' \<noteq> lit ''WaitHandle''"
    by (simp_all add: lit_def)
  have "\<exists>this. waitForTopicSignal [customResourceOf propsAtBounds] (lit ''1234567'') responseArn
      propsAtBounds = Inr this"
    by (simp add: waitForTopicSignal_def w Let_def addChild_def customResourceOf_def ids
        hours_def)
  then show ?thesis
    using concrete_timeouts(5) h arn th by (auto simp: ctor_unfold)
qed

theorem C9_bounds_strict_witness:
  "timeoutSeconds propsAtBounds = Inr 43200 \<and> hashLength propsAtBounds = 7
   \<and> Ec2ImageBuilderStart_constructor isArn0 propsAtBounds \<noteq> Inl timeoutError
   \<and> Ec2ImageBuilderStart_constructor isArn0 propsAtBounds \<noteq> Inl hashError
   \<and> (\<exists>c. Ec2ImageBuilderStart_constructor isArn0 propsAtBounds = Inr c)
   \<and> timeoutSeconds propsLongTimeout = Inr 43201
   \<and> Ec2ImageBuilderStart_constructor isArn0 propsLongTimeout = Inl timeoutError"
proof -
  have h: "hashLength propsAtBounds = 7"
    by (simp add: propsAtBounds_def props0_def hashLength_def lit_def)
  have a: "Ec2ImageBuilderStart_constructor isArn0 propsAtBounds \<noteq> Inl timeoutError
        \<and> Ec2ImageBuilderStart_constructor isArn0 propsAtBounds \<noteq> Inl hashError"
    using C9_bounds_strict [where awsArn = isArn0 and props = propsAtBounds,
        THEN conjunct2, THEN conjunct2] concrete_timeouts(5) h
    by simp
  have t: "Ec2ImageBuilderStart_constructor isArn0 propsLongTimeout = Inl timeoutError"
    using C9_bounds_strict [where awsArn = isArn0 and props = propsLongTimeout,
        THEN conjunct1] concrete_timeouts(1)
    by simp
  show ?thesis
    using concrete_timeouts(1,5) h a t propsAtBounds_accepted by simp
qed

section \<open>Ec2ImageBuilderStart: the resources of a built construct\<close>

lemma ctor_children_absent:
  assumes "Ec2ImageBuilderStart_constructor awsArn props = Inr c"
      and "waitForCompletion props = None"
  shows "children c = [customResourceOf props]"
  using ctor_Inr(4) [OF assms(1)] assms(2) by (simp add: waitForTopicSignal_absent)

lemma ctor_children_given:
  assumes "Ec2ImageBuilderStart_constructor awsArn props = Inr c"
      and "waitForCompletion props = Some w"
  shows "\<exists>sp wp n.
           children c = [customResourceOf props,
                         CfnWaitConditionHandle (lit ''WaitHandle'' @ thisHash props),
                         NodejsFunction (lit ''WaiterSignal'') sp,
                         CfnWaitCondition (lit ''Waiter'' @ thisHash props) wp]
           \<and> eventSources sp = [topic w]
           \<and> handle wp = Ref (lit ''WaitHandle'' @ thisHash props)
           \<and> (case timeout w of None \<Rightarrow> Inr 43200 | Some d \<Rightarrow> toSeconds d) = Inr n
           \<and> waitTimeout wp = decimal n"
  using waitForTopicSignal_given [OF assms(2) ctor_Inr(4) [OF assms(1)]] by simp

text \<open>
  C3: for props the constructor accepts, the construct holds exactly one custom
  resource, of type Custom::Ec2ImageBuilderStart; its onCreate and its onUpdate call
  are the same call, the action startImagePipelineExecution of the service Imagebuilder
  with the parameters {imagePipelineArn: props.pipelineArn}, and the physical resource
  id of the call is props.hash when a hash is given and 'Run1x' otherwise.
\<close>

theorem C3_start_call:
  assumes "Ec2ImageBuilderStart_constructor awsArn props = Inr c"
  shows "\<exists>crp. filter isCustomResource (children c) =
               [AwsCustomResource (lit ''Ec2ImageBuilderStartCr'') crp]
           \<and> resourceType crp = lit ''Custom::Ec2ImageBuilderStart''
           \<and> onCreate crp = onUpdate crp
           \<and> action (onCreate crp) = lit ''startImagePipelineExecution''
           \<and> service (onCreate crp) = lit ''Imagebuilder''
           \<and> parameters (onCreate crp) = [(lit ''imagePipelineArn'', pipelineArn props)]
           \<and> physicalResourceId (onCreate crp) =
               (case hash props of Some h \<Rightarrow> h | None \<Rightarrow> lit ''Run1x'')"
proof (cases "waitForCompletion props")
  case None
  show ?thesis
    by (simp add: ctor_children_absent [OF assms None] customResourceOf_def start_def
        thisHash_def split: option.splits)
next
  case (Some w)
  obtain sp wp where
    "children c = [customResourceOf props,
                   CfnWaitConditionHandle (lit ''WaitHandle'' @ thisHash props),
                   NodejsFunction (lit ''WaiterSignal'') sp,
                   CfnWaitCondition (lit ''Waiter'' @ thisHash props) wp]"
    using ctor_children_given [OF assms Some] by blast
  then show ?thesis
    by (simp add: customResourceOf_def start_def thisHash_def split: option.splits)
qed

theorem C3_start_call_witness:
  "\<exists>c. Ec2ImageBuilderStart_constructor isArn0 propsAtBounds = Inr c
     \<and> (\<exists>crp. filter isCustomResource (children c) =
               [AwsCustomResource (lit ''Ec2ImageBuilderStartCr'') crp]
           \<and> onCreate crp = onUpdate crp
           \<and> action (onCreate crp) = lit ''startImagePipelineExecution''
           \<and> parameters (onCreate crp) = [(lit ''imagePipelineArn'', arn0)]
           \<and> physicalResourceId (onCreate crp) = lit ''1234567'')"
proof -
  obtain c where c: "Ec2ImageBuilderStart_constructor isArn0 propsAtBounds = Inr c"
    using propsAtBounds_accepted by blast
  have p: "pipelineArn propsAtBounds = arn0" "hash propsAtBounds = Some (lit ''1234567'')"
    by (simp_all add: propsAtBounds_def props0_def)
  show ?thesis
    using c C3_start_call [OF c] p by auto
qed




section \<open>DynamoDBProvisionTable: one provider per stack node id\<close>

lemma cacheInv_world0: "cacheInv world0"
  by (simp add: cacheInv_def world0_def)

lemma getOrBuild_cached:
  assumes "serviceTokens w (nodeId (stackOf scope)) = Some p"
  shows "getOrBuildProvider w scope props = (p, w)"
  using assms by (simp add: getOrBuildProvider_def Let_def)

lemma getOrBuild_fresh:
  assumes "serviceTokens w (nodeId (stackOf scope)) = None"
  shows "getOrBuildProvider w scope props =
     (buildProvider w scope props,
      w \<lparr> serviceTokens := (serviceTokens w)(nodeId (stackOf scope) \<mapsto> buildProvider w scope props),
          providers := providers w @ [buildProvider w scope props] \<rparr>)"
  using assms by (simp add: getOrBuildProvider_def Let_def)

lemma buildProvider_fields [simp]:
  "providerRef (buildProvider w scope props) = length (providers w)"
  "providerStackId (buildProvider w scope props) = nodeId (stackOf scope)"
  by (simp_all add: buildProvider_def providerStackId_def)

lemma cacheInv_fresh:
  assumes inv: "cacheInv w" and none: "serviceTokens w (nodeId (stackOf scope)) = None"
  shows "cacheInv (w \<lparr> serviceTokens := (serviceTokens w)(nodeId (stackOf scope) \<mapsto> buildProvider w scope props),
          providers := providers w @ [buildProvider w scope props] \<rparr>)"
proof -
  let ?b = "buildProvider w scope props"
  let ?k = "nodeId (stackOf scope)"
  have notin: "?k \<notin> providerStackId ` set (providers w)"
    using inv none unfolding cacheInv_def by (metis imageE option.distinct(1))
  have bnew: "?b \<notin> set (providers w)"
    using notin by (metis buildProvider_fields(2) imageI)
  show ?thesis
    unfolding cacheInv_def
    using inv notin bnew unfolding cacheInv_def
    by (auto simp: image_iff)
qed

lemma getOrBuild_inv:
  assumes "cacheInv w" and "getOrBuildProvider w scope props = (p, w')"
  shows "cacheInv w' \<and> serviceTokens w' (nodeId (stackOf scope)) = Some p
         \<and> (\<forall>k q. serviceTokens w k = Some q \<longrightarrow> serviceTokens w' k = Some q)
         \<and> dom (serviceTokens w') = insert (nodeId (stackOf scope)) (dom (serviceTokens w))"
proof (cases "serviceTokens w (nodeId (stackOf scope))")
  case None
  then show ?thesis
    using assms cacheInv_fresh [OF assms(1) None, of props]
    by (auto simp: getOrBuild_fresh)
next
  case (Some q)
  then show ?thesis
    using assms by (auto simp: getOrBuild_cached)
qed

lemma ctor_provider:
  "DynamoDBProvisionTable_constructor w scope props = ((p, t), w') \<Longrightarrow>
     \<exists>w1. getOrBuildProvider w scope props = (p, w1)
        \<and> serviceTokens w' = serviceTokens w1 \<and> providers w' = providers w1"
  by (auto simp: DynamoDBProvisionTable_constructor_def Let_def split: prod.splits)

lemma cacheInv_cong:
  "serviceTokens w' = serviceTokens w \<Longrightarrow> providers w' = providers w \<Longrightarrow>
     cacheInv w' = cacheInv w"
  by (simp add: cacheInv_def)

lemma ctor_inv:
  assumes "cacheInv w" and "DynamoDBProvisionTable_constructor w scope props = ((p, t), w')"
  shows "cacheInv w' \<and> serviceTokens w' (nodeId (stackOf scope)) = Some p
         \<and> (\<forall>k q. serviceTokens w k = Some q \<longrightarrow> serviceTokens w' k = Some q)
         \<and> dom (serviceTokens w') = insert (nodeId (stackOf scope)) (dom (serviceTokens w))"
proof -
  obtain w1 where w1: "getOrBuildProvider w scope props = (p, w1)"
    "serviceTokens w' = serviceTokens w1" "providers w' = providers w1"
    using ctor_provider [OF assms(2)] by blast
  show ?thesis
    using getOrBuild_inv [OF assms(1) w1(1)] w1(2,3) cacheInv_cong [OF w1(2,3)] by simp
qed

lemma constructions_inv:
  assumes "cacheInv w" and "constructions w cs = (ps, w')"
  shows "cacheInv w' \<and> length ps = length cs
         \<and> (\<forall>i<length cs. serviceTokens w' (stackIdOf (cs ! i)) = Some (ps ! i))
         \<and> (\<forall>k q. serviceTokens w k = Some q \<longrightarrow> serviceTokens w' k = Some q)
         \<and> dom (serviceTokens w') = dom (serviceTokens w) \<union> stackIdOf ` set cs"
  using assms
proof (induction cs arbitrary: w ps w')
  case Nil
  then show ?case by simp
next
  case (Cons c cs)
  obtain scope props where c: "c = (scope, props)" by (cases c)
  obtain p t w1 where step: "DynamoDBProvisionTable_constructor w scope props = ((p, t), w1)"
    by (metis surj_pair)
  obtain ps' w2 where rest: "constructions w1 cs = (ps', w2)"
    by (metis surj_pair)
  have res: "ps = p # ps'" "w' = w2"
    using Cons.prems(2) by (simp_all add: c step rest)
  note s = ctor_inv [OF Cons.prems(1) step]
  note r = Cons.IH [OF conjunct1 [OF s] rest]
  have tok: "serviceTokens w2 (stackIdOf ((c # cs) ! i)) = Some ((p # ps') ! i)"
    if "i < length (c # cs)" for i
  proof (cases i)
    case 0
    then show ?thesis using s r by (simp add: c stackIdOf_def)
  next
    case (Suc j)
    then show ?thesis using that r by simp
  qed
  show ?case
    unfolding res
    using s r tok by (auto simp: c stackIdOf_def)
qed

lemma getOrBuild_fresh_result:
  assumes none: "serviceTokens w (nodeId (stackOf scope)) = None"
   and w1: "getOrBuildProvider w scope props = (p, w1)"
  shows "p = buildProvider w scope props"
      and "w1 = w \<lparr> serviceTokens := (serviceTokens w)(nodeId (stackOf scope) \<mapsto> buildProvider w scope props),
          providers := providers w @ [buildProvider w scope props] \<rparr>"
proof -
  have "(p, w1) = (buildProvider w scope props,
     w \<lparr> serviceTokens := (serviceTokens w)(nodeId (stackOf scope) \<mapsto> buildProvider w scope props),
          providers := providers w @ [buildProvider w scope props] \<rparr>)"
    using w1 unfolding getOrBuild_fresh [OF none] by (rule sym)
  then show "p = buildProvider w scope props"
      and "w1 = w \<lparr> serviceTokens := (serviceTokens w)(nodeId (stackOf scope) \<mapsto> buildProvider w scope props),
          providers := providers w @ [buildProvider w scope props] \<rparr>"
    by blast+
qed

lemma ctor_total:
  "\<exists>p t w'. DynamoDBProvisionTable_constructor w scope props = ((p, t), w')"
  by (metis surj_pair)

text \<open>
  C2: run any sequence of constructions on the initial, empty static map, and then one
  more construction. Among the providers built so far no two are the same object, no
  two belong to stacks with the same node id, and so no two belong to the same stack;
  constructions whose stacks have the same node id have used the identical provider.
  If the node id of the next construction's stack has been seen, the construction
  builds nothing and uses the provider the earlier ones used; if it has not been seen,
  the construction builds one new provider in its scope and stores it in the map under
  that node id.
\<close>

theorem C2_one_provider_per_stack:
  assumes "constructions world0 cs = (ps, w)"
      and "DynamoDBProvisionTable_constructor w scope props = ((p, t), w')"
  shows "distinct (map providerRef (providers w))
       \<and> distinct (map (\<lambda>q. nodeId (stackOf (providerScope q))) (providers w))
       \<and> distinct (map (\<lambda>q. stackOf (providerScope q)) (providers w))
       \<and> length ps = length cs
       \<and> (\<forall>i<length cs. \<forall>j<length cs.
             stackIdOf (cs ! i) = stackIdOf (cs ! j) \<longrightarrow> ps ! i = ps ! j)
       \<and> (nodeId (stackOf scope) \<in> stackIdOf ` set cs \<longrightarrow>
             providers w' = providers w \<and> serviceTokens w' = serviceTokens w
             \<and> (\<forall>i<length cs. stackIdOf (cs ! i) = nodeId (stackOf scope) \<longrightarrow> p = ps ! i))
       \<and> (nodeId (stackOf scope) \<notin> stackIdOf ` set cs \<longrightarrow>
             providers w' = providers w @ [p]
             \<and> serviceTokens w' = (serviceTokens w)(nodeId (stackOf scope) \<mapsto> p)
             \<and> providerScope p = scope
             \<and> providerRef p \<notin> providerRef ` set (providers w))"
proof -
  note inv = constructions_inv [OF cacheInv_world0 assms(1)]
  have cinv: "cacheInv w" and len: "length ps = length cs"
    and tok: "\<And>i. i < length cs \<Longrightarrow> serviceTokens w (stackIdOf (cs ! i)) = Some (ps ! i)"
    and dom: "dom (serviceTokens w) = stackIdOf ` set cs"
    using inv by (simp_all add: world0_def)
  have refs: "map providerRef (providers w) = [0..<length (providers w)]"
    and dist: "distinct (map providerStackId (providers w))"
    using cinv by (simp_all add: cacheInv_def)
  have d1: "distinct (map providerRef (providers w))"
    by (simp add: refs)
  have d2: "distinct (map (\<lambda>q. nodeId (stackOf (providerScope q))) (providers w))"
    using dist by (simp add: providerStackId_def [abs_def])
  have "distinct (map nodeId (map (\<lambda>q. stackOf (providerScope q)) (providers w)))"
    using d2 by (simp add: comp_def)
  then have d3: "distinct (map (\<lambda>q. stackOf (providerScope q)) (providers w))"
    using distinct_map [of nodeId "map (\<lambda>q. stackOf (providerScope q)) (providers w)"]
    by blast
  have same: "ps ! i = ps ! j"
    if "i < length cs" "j < length cs" "stackIdOf (cs ! i) = stackIdOf (cs ! j)" for i j
    using tok [OF that(1)] tok [OF that(2)] that(3) by simp
  obtain w1 where w1: "getOrBuildProvider w scope props = (p, w1)"
    "serviceTokens w' = serviceTokens w1" "providers w' = providers w1"
    using ctor_provider [OF assms(2)] by blast
  have seen: "providers w' = providers w \<and> serviceTokens w' = serviceTokens w
      \<and> (\<forall>i<length cs. stackIdOf (cs ! i) = nodeId (stackOf scope) \<longrightarrow> p = ps ! i)"
    if "nodeId (stackOf scope) \<in> stackIdOf ` set cs"
  proof -
    have "nodeId (stackOf scope) \<in> dom (serviceTokens w)"
      using that dom by simp
    then obtain q where q: "serviceTokens w (nodeId (stackOf scope)) = Some q"
      by (auto simp: domIff)
    have "(p, w1) = (q, w)"
      using w1(1) getOrBuild_cached [OF q, of props] by simp
    then have pq: "p = q" and ww: "w1 = w"
      by simp_all
    have "p = ps ! i" if "i < length cs" "stackIdOf (cs ! i) = nodeId (stackOf scope)" for i
      using tok [OF that(1)] q that(2) pq by simp
    then show ?thesis
      using w1(2,3) ww by simp
  qed
  have unseen: "providers w' = providers w @ [p]
      \<and> serviceTokens w' = (serviceTokens w)(nodeId (stackOf scope) \<mapsto> p)
      \<and> providerScope p = scope
      \<and> providerRef p \<notin> providerRef ` set (providers w)"
    if "nodeId (stackOf scope) \<notin> stackIdOf ` set cs"
  proof -
    have "nodeId (stackOf scope) \<notin> dom (serviceTokens w)"
      using that dom by simp
    then have none: "serviceTokens w (nodeId (stackOf scope)) = None"
      by (simp add: domIff)
    note p = getOrBuild_fresh_result(1) [OF none w1(1)]
    note w1' = getOrBuild_fresh_result(2) [OF none w1(1)]
    have "providerRef p \<notin> set (map providerRef (providers w))"
      unfolding refs p by simp
    then have fresh: "providerRef p \<notin> providerRef ` set (providers w)"
      by simp
    have pr: "providers w1 = providers w @ [p]"
      unfolding p by (subst w1') simp
    have st: "serviceTokens w1 = (serviceTokens w)(nodeId (stackOf scope) \<mapsto> p)"
      unfolding p by (subst w1') simp
    have sc: "providerScope p = scope"
      unfolding p by (simp add: buildProvider_def)
    show ?thesis
      using fresh pr st sc w1(2,3) by simp
  qed
  have same': "\<forall>i<length cs. \<forall>j<length cs.
             stackIdOf (cs ! i) = stackIdOf (cs ! j) \<longrightarrow> ps ! i = ps ! j"
    using same by blast
  have seen': "nodeId (stackOf scope) \<in> stackIdOf ` set cs \<longrightarrow>
      providers w' = providers w \<and> serviceTokens w' = serviceTokens w
      \<and> (\<forall>i<length cs. stackIdOf (cs ! i) = nodeId (stackOf scope) \<longrightarrow> p = ps ! i)"
    by (rule impI, rule seen, assumption)
  have unseen': "nodeId (stackOf scope) \<notin> stackIdOf ` set cs \<longrightarrow>
      providers w' = providers w @ [p]
      \<and> serviceTokens w' = (serviceTokens w)(nodeId (stackOf scope) \<mapsto> p)
      \<and> providerScope p = scope
      \<and> providerRef p \<notin> providerRef ` set (providers w)"
    by (rule impI, rule unseen, assumption)
  show ?thesis
    using d1 d2 d3 len same' seen' unseen' by (intro conjI) assumption+
qed

theorem C2_one_provider_per_stack_witness:
  "\<exists>ps w p t w' p2 t2 w2.
     constructions world0 twoConstructions = (ps, w)
     \<and> DynamoDBProvisionTable_constructor w scopeA2 ddbProps0 = ((p, t), w')
     \<and> nodeId (stackOf scopeA2) \<in> stackIdOf ` set twoConstructions
     \<and> stackIdOf (twoConstructions ! 0) = nodeId (stackOf scopeA2)
     \<and> providers w' = providers w \<and> p = ps ! 0
     \<and> DynamoDBProvisionTable_constructor w scopeC ddbProps0 = ((p2, t2), w2)
     \<and> nodeId (stackOf scopeC) \<notin> stackIdOf ` set twoConstructions
     \<and> providers w2 = providers w @ [p2] \<and> providerScope p2 = scopeC"
proof -
  obtain ps w where run: "constructions world0 twoConstructions = (ps, w)"
    by (metis surj_pair)
  obtain p t w' where a: "DynamoDBProvisionTable_constructor w scopeA2 ddbProps0 = ((p, t), w')"
    using ctor_total by blast
  obtain p2 t2 w2 where c: "DynamoDBProvisionTable_constructor w scopeC ddbProps0 = ((p2, t2), w2)"
    using ctor_total by blast
  have seen: "nodeId (stackOf scopeA2) \<in> stackIdOf ` set twoConstructions"
    and first: "stackIdOf (twoConstructions ! 0) = nodeId (stackOf scopeA2)"
    and unseen: "nodeId (stackOf scopeC) \<notin> stackIdOf ` set twoConstructions"
    and len: "0 < length twoConstructions"
    by (simp_all add: twoConstructions_def scopeA2_def scopeC_def stackA_def stackB_def
        stackIdOf_def lit_def)
  show ?thesis
    using run a c seen first unseen len
      C2_one_provider_per_stack [OF run a] C2_one_provider_per_stack [OF run c]
    by blast
qed

section \<open>indexOf finds the first occurrence\<close>

lemma startsWith_Nil [simp]: "startsWith s []"
  by (simp add: startsWith_def)

lemma startsWith_append: "startsWith (p @ s) p"
  by (simp add: startsWith_def)

lemma startsWith_length:
  assumes "startsWith s p"
  shows "length p \<le> length s"
proof -
  have "length (take (length p) s) = length p"
    using assms by (simp only: startsWith_def)
  then show ?thesis by simp
qed

lemma indexOfFrom_result:
  "indexOfFrom s p k = - 1 \<and> (\<forall>i\<le>length s. \<not> startsWith (drop i s) p)
   \<or> (\<exists>i\<le>length s. indexOfFrom s p k = int (k + i) \<and> startsWith (drop i s) p
          \<and> (\<forall>j<i. \<not> startsWith (drop j s) p))"
proof (induction s arbitrary: k)
  case Nil
  then show ?case by (cases p) (simp_all add: startsWith_def)
next
  case (Cons c s)
  show ?case
  proof (cases "startsWith (c # s) p")
    case True
    then have "indexOfFrom (c # s) p k = int (k + 0) \<and> startsWith (drop 0 (c # s)) p
        \<and> (\<forall>j<0. \<not> startsWith (drop j (c # s)) p)"
      by simp
    then show ?thesis by blast
  next
    case False
    then have step: "indexOfFrom (c # s) p k = indexOfFrom s p (Suc k)"
      by simp
    from Cons.IH [of "Suc k"] show ?thesis
    proof
      assume a: "indexOfFrom s p (Suc k) = - 1 \<and> (\<forall>i\<le>length s. \<not> startsWith (drop i s) p)"
      have "\<not> startsWith (drop i (c # s)) p" if "i \<le> length (c # s)" for i
        using that a False by (cases i) simp_all
      then show ?thesis using a step by simp
    next
      assume "\<exists>i\<le>length s. indexOfFrom s p (Suc k) = int (Suc k + i) \<and> startsWith (drop i s) p
          \<and> (\<forall>j<i. \<not> startsWith (drop j s) p)"
      then obtain i where i: "i \<le> length s" "indexOfFrom s p (Suc k) = int (Suc k + i)"
        "startsWith (drop i s) p" "\<forall>j<i. \<not> startsWith (drop j s) p"
        by blast
      have "\<not> startsWith (drop j (c # s)) p" if "j < Suc i" for j
        using that i(4) False by (cases j) simp_all
      then have "Suc i \<le> length (c # s) \<and> indexOfFrom (c # s) p k = int (k + Suc i)
          \<and> startsWith (drop (Suc i) (c # s)) p \<and> (\<forall>j<Suc i. \<not> startsWith (drop j (c # s)) p)"
        using i step by simp
      then show ?thesis by blast
    qed
  qed
qed

lemma indexOf_cases:
  "indexOf s p = - 1 \<and> (\<forall>i\<le>length s. \<not> startsWith (drop i s) p)
   \<or> (\<exists>i\<le>length s. indexOf s p = int i \<and> startsWith (drop i s) p
          \<and> (\<forall>j<i. \<not> startsWith (drop j s) p))"
  using indexOfFrom_result [of s p 0] by (simp add: indexOf_def)

lemma indexOf_found:
  assumes "indexOf s p \<noteq> - 1"
  obtains i where "i \<le> length s" "indexOf s p = int i" "startsWith (drop i s) p"
    "\<And>j. j < i \<Longrightarrow> \<not> startsWith (drop j s) p"
  using assms indexOf_cases [of s p] by blast

lemma indexOf_first:
  assumes "i \<le> length s" "startsWith (drop i s) p" "\<And>j. j < i \<Longrightarrow> \<not> startsWith (drop j s) p"
  shows "indexOf s p = int i"
proof -
  from indexOf_cases [of s p] show ?thesis
  proof
    assume "indexOf s p = - 1 \<and> (\<forall>i\<le>length s. \<not> startsWith (drop i s) p)"
    then show ?thesis using assms(1,2) by blast
  next
    assume "\<exists>i\<le>length s. indexOf s p = int i \<and> startsWith (drop i s) p
          \<and> (\<forall>j<i. \<not> startsWith (drop j s) p)"
    then obtain k where k: "indexOf s p = int k" "startsWith (drop k s) p"
      "\<forall>j<k. \<not> startsWith (drop j s) p"
      by blast
    have "k = i"
      using k(2,3) assms(2,3) by (meson linorder_neqE_nat)
    then show ?thesis using k(1) by simp
  qed
qed

lemma includesStr_iff:
  "includesStr s p = (\<exists>i\<le>length s. startsWith (drop i s) p)"
  using indexOf_cases [of s p] by (auto simp: includesStr_def)

lemma indexOf_ge: "- 1 \<le> indexOf s p"
  using indexOf_cases [of s p] by auto

lemma slice_from_0:
  "0 \<le> n \<Longrightarrow> slice s 0 n = take (nat n) s"
  by (auto simp: slice_def Let_def min_def)

lemma sliceFrom_nonneg:
  "0 \<le> n \<Longrightarrow> sliceFrom s n = drop (nat n) s"
  by (auto simp: sliceFrom_def slice_def Let_def min_def)

text \<open>An occurrence of a pattern cannot lie across a code unit the pattern does not hold.\<close>

lemma occurrence_split:
  assumes "c \<notin> set p" "p \<noteq> []" "startsWith (drop j (xs @ c # ys)) p"
  shows "j + length p \<le> length xs \<and> startsWith (drop j xs) p
       \<or> length xs < j \<and> startsWith (drop (j - length xs - 1) ys) p"
proof (cases "j \<le> length xs")
  case True
  have tk: "take (length p) (drop j xs @ c # ys) = p"
    using assms(3) True by (simp add: startsWith_def)
  show ?thesis
  proof (cases "j + length p \<le> length xs")
    case True
    then have "take (length p) (drop j xs @ c # ys) = take (length p) (drop j xs)"
      by simp
    then show ?thesis using tk True by (simp add: startsWith_def)
  next
    case False
    then have lt: "length xs - j < length p" using True by simp
    have "p ! (length xs - j) = (drop j xs @ c # ys) ! (length xs - j)"
      using tk lt by (metis nth_take)
    also have "\<dots> = c"
      using True by (simp add: nth_append)
    finally have "c \<in> set p" using lt by (metis nth_mem)
    then show ?thesis using assms(1) by simp
  qed
next
  case False
  then have "drop j (xs @ c # ys) = drop (j - length xs - 1) ys"
    by (simp add: drop_Cons')
  then show ?thesis using assms(3) False by simp
qed

lemma occurrence_in_prefix:
  assumes "j + length p \<le> n" "startsWith (drop j (take n s)) p"
  shows "startsWith (drop j s) p"
proof -
  have "take (length p) (drop j (take n s)) = take (length p) (drop j s)"
    using assms(1) by (simp add: drop_take)
  then show ?thesis using assms(2) by (simp add: startsWith_def)
qed

lemma occurrence_prefix_append:
  assumes "j + length p \<le> length xs"
  shows "startsWith (drop j (xs @ ys)) p = startsWith (drop j xs) p"
  using assms by (simp add: startsWith_def)

lemma indexOf_firstOccurrence:
  "(indexOf s p = int i) = firstOccurrence s p i"
proof
  assume a: "indexOf s p = int i"
  then have "indexOf s p \<noteq> - 1" by simp
  then obtain k where k: "k \<le> length s" "indexOf s p = int k" "startsWith (drop k s) p"
    "\<And>j. j < k \<Longrightarrow> \<not> startsWith (drop j s) p"
    by (rule indexOf_found) blast
  have "k = i" using a k(2) by simp
  then show "firstOccurrence s p i"
    using k by (simp add: firstOccurrence_def)
next
  assume "firstOccurrence s p i"
  then show "indexOf s p = int i"
    by (intro indexOf_first) (simp_all add: firstOccurrence_def)
qed

lemma firstOccurrence_append:
  assumes "firstOccurrence xs p i"
  shows "firstOccurrence (xs @ ys) p i"
proof -
  have i: "i \<le> length xs" "startsWith (drop i xs) p"
    and least: "\<And>j. j < i \<Longrightarrow> \<not> startsWith (drop j xs) p"
    using assms by (simp_all add: firstOccurrence_def)
  have len: "i + length p \<le> length xs"
    using startsWith_length [OF i(2)] i(1) by simp
  have here: "startsWith (drop i (xs @ ys)) p"
    using occurrence_prefix_append [OF len, of ys] i(2) by simp
  have "\<not> startsWith (drop j (xs @ ys)) p" if "j < i" for j
  proof -
    have "j + length p \<le> length xs" using that len by simp
    then show ?thesis
      using occurrence_prefix_append [of j p xs ys] least [OF that] by simp
  qed
  then show ?thesis
    using i(1) here by (simp add: firstOccurrence_def)
qed

section \<open>The marker replacement of generateAndInjectAwsManagedRuleEnum\<close>

lemma startMarker_length: "length startMarker = 30"
  by (simp add: startMarker_def lit_def)

lemma endMarker_length: "length endMarker = 34"
  by (simp add: endMarker_def lit_def)

lemma nl_notin_endMarker: "nl \<notin> set endMarker"
  by (simp add: endMarker_def lit_def nl_def)

lemma endMarker_not_after_space:
  "\<not> startsWith (32 # s) endMarker"
  by (simp add: startsWith_def endMarker_def lit_def)

lemma endMarker_not_in_indent:
  assumes "j < 4"
  shows "\<not> startsWith (drop j (lit ''    '' @ s)) endMarker"
proof -
  have "j = 0 \<or> j = 1 \<or> j = 2 \<or> j = 3" using assms by arith
  then show ?thesis
    by (auto simp: lit_def endMarker_not_after_space)
qed

lemma injectEnum_Inr:
  assumes "injectEnum fileContent enumString = Inr newContent"
  obtains si ei where
    "firstOccurrence fileContent startMarker si"
    "firstOccurrence fileContent endMarker ei"
    "newContent = take (si + length startMarker) fileContent @ [nl] @ enumString @ [nl]
                    @ lit ''    '' @ drop ei fileContent"
proof -
  have found: "indexOf fileContent startMarker \<noteq> - 1" "indexOf fileContent endMarker \<noteq> - 1"
    using assms by (auto simp: injectEnum_def Let_def split: if_splits)
  obtain si where si: "indexOf fileContent startMarker = int si"
    using found(1) by (rule indexOf_found) blast
  obtain ei where ei: "indexOf fileContent endMarker = int ei"
    using found(2) by (rule indexOf_found) blast
  have "newContent = slice fileContent 0 (int si + int (length startMarker)) @ [nl]
          @ enumString @ [nl] @ lit ''    '' @ sliceFrom fileContent (int ei)"
    using assms found by (simp add: injectEnum_def Let_def si ei)
  then have "newContent = take (si + length startMarker) fileContent @ [nl] @ enumString @ [nl]
                    @ lit ''    '' @ drop ei fileContent"
    by (simp add: slice_from_0 sliceFrom_nonneg nat_add_distrib)
  then show ?thesis
    using that si ei by (simp add: indexOf_firstOccurrence)
qed

lemma injectEnum_found:
  assumes "firstOccurrence fileContent startMarker si" "firstOccurrence fileContent endMarker ei"
  shows "injectEnum fileContent enumString =
      Inr (take (si + length startMarker) fileContent @ [nl] @ enumString @ [nl]
             @ lit ''    '' @ drop ei fileContent)"
proof -
  have si: "indexOf fileContent startMarker = int si" and ei: "indexOf fileContent endMarker = int ei"
    using assms by (simp_all add: indexOf_firstOccurrence)
  show ?thesis
    by (simp add: injectEnum_def Let_def si ei slice_from_0 sliceFrom_nonneg nat_add_distrib)
qed

lemma injectEnum_Inl:
  "(\<exists>e. injectEnum fileContent enumString = Inl e) =
     (indexOf fileContent startMarker = - 1 \<or> indexOf fileContent endMarker = - 1)"
  by (simp add: injectEnum_def Let_def)

lemma generate_total:
  "\<exists>fs' out. generateAndInjectAwsManagedRuleEnum send fs = Inr (fs', out)"
  by (simp add: generateAndInjectAwsManagedRuleEnum_def split: sum.splits prod.splits)

lemma generate_written:
  assumes "generateAndInjectAwsManagedRuleEnum send fs = Inr (fs', out)" "fs' \<noteq> fs"
  obtains fileContent enumString newContent where
    "files fs filePath = Some fileContent"
    "injectEnum fileContent enumString = Inr newContent"
    "fs' = fs \<lparr> files := (files fs)(filePath \<mapsto> newContent) \<rparr>"
proof -
  obtain line where t: "generateAndInject_try send fs = Inr (fs', line)"
    using assms
    by (auto simp: generateAndInjectAwsManagedRuleEnum_def split: sum.splits prod.splits)
  then obtain response where r: "send = Inr response"
    by (cases send) (simp_all add: generateAndInject_try_def)
  define ruleGroups where
    "ruleGroups = (case ManagedRuleGroups response of None \<Rightarrow> [] | Some g \<Rightarrow> g)"
  define enumString where "enumString = enumStringOf (ruleGroupMapOf ruleGroups)"
  have ne: "length ruleGroups \<noteq> 0"
    using t r unfolding generateAndInject_try_def Let_def ruleGroups_def
    by (auto split: if_splits)
  then have t': "(case readFileSync fs filePath of
            Inl e \<Rightarrow> Inl e
          | Inr fileContent \<Rightarrow>
              (case injectEnum fileContent enumString of
                 Inl e \<Rightarrow> Inl e
               | Inr newContent \<Rightarrow>
                   (case writeFileSync fs filePath newContent of
                      Inl e \<Rightarrow> Inl e
                    | Inr fs' \<Rightarrow>
                        Inr (fs', lit ''AWS Managed Rules generated -- count: ''
                                  @ decimal (length (ruleGroupMapOf ruleGroups)))))) =
          Inr (fs', line)"
    using t r unfolding generateAndInject_try_def Let_def ruleGroups_def enumString_def
    by simp
  then obtain fileContent where c: "readFileSync fs filePath = Inr fileContent"
    by (cases "readFileSync fs filePath") simp_all
  then have f: "files fs filePath = Some fileContent"
    by (simp add: readFileSync_def split: option.splits)
  obtain newContent where n: "injectEnum fileContent enumString = Inr newContent"
    using t' c by (cases "injectEnum fileContent enumString") simp_all
  have "writeFileSync fs filePath newContent = Inr fs'"
    using t' c n by (cases "writeFileSync fs filePath newContent") simp_all
  then have "fs' = fs \<lparr> files := (files fs)(filePath \<mapsto> newContent) \<rparr>"
    by (simp add: writeFileSync_def split: if_splits)
  then show ?thesis using that f n by blast
qed

lemma generate_not_written:
  assumes "files fs filePath = Some fileContent"
      and "indexOf fileContent startMarker = - 1 \<or> indexOf fileContent endMarker = - 1"
      and "generateAndInjectAwsManagedRuleEnum send fs = Inr (fs', out)"
  shows "fs' = fs"
proof (rule ccontr)
  assume "fs' \<noteq> fs"
  then obtain fileContent' enumString newContent where
    w: "files fs filePath = Some fileContent'"
       "injectEnum fileContent' enumString = Inr newContent"
    using generate_written [OF assms(3)] by metis
  have "fileContent' = fileContent" using w(1) assms(1) by simp
  then have "\<not> (\<exists>e. injectEnum fileContent enumString = Inl e)"
    using w(2) by simp
  then show False
    using assms(2) injectEnum_Inl [of fileContent enumString] by simp
qed

text \<open>
  C5, amended: take a run of generateAndInjectAwsManagedRuleEnum on a file system that
  holds the target file. If one of the two markers is absent from the file, the file
  system after the run is the one before it: the file is not written. Otherwise either
  nothing is written, or only the target file is written, and its new content is the old
  content up to and including the first start marker, a newline, the enum, a newline and
  four spaces, and the old content from the first end marker on: the old text up to the
  end of the start marker is a prefix of the new content and the old text from the end
  marker on is a suffix of it. When the first end marker starts at or behind the end of
  the first start marker, the old content is these two parts with a middle part between
  them, and only the middle part is replaced.
\<close>

theorem C5_injection_frame:
  assumes "files fs filePath = Some fileContent"
      and "generateAndInjectAwsManagedRuleEnum send fs = Inr (fs', out)"
  shows "(indexOf fileContent startMarker = - 1 \<or> indexOf fileContent endMarker = - 1 \<longrightarrow> fs' = fs)
       \<and> (fs' = fs \<or>
           (\<exists>si ei enumString newContent.
              firstOccurrence fileContent startMarker si
              \<and> firstOccurrence fileContent endMarker ei
              \<and> fs' = fs \<lparr> files := (files fs)(filePath \<mapsto> newContent) \<rparr>
              \<and> newContent = take (si + length startMarker) fileContent @ [nl] @ enumString
                               @ [nl] @ lit ''    '' @ drop ei fileContent
              \<and> prefix (take (si + length startMarker) fileContent) newContent
              \<and> suffix (drop ei fileContent) newContent
              \<and> (si + length startMarker \<le> ei \<longrightarrow>
                    fileContent = take (si + length startMarker) fileContent
                      @ take (ei - (si + length startMarker))
                          (drop (si + length startMarker) fileContent)
                      @ drop ei fileContent)))"
proof -
  have absent: "indexOf fileContent startMarker = - 1 \<or> indexOf fileContent endMarker = - 1
      \<longrightarrow> fs' = fs"
    using generate_not_written [OF assms(1) _ assms(2)] by blast
  have written: "\<exists>si ei enumString newContent.
              firstOccurrence fileContent startMarker si
              \<and> firstOccurrence fileContent endMarker ei
              \<and> fs' = fs \<lparr> files := (files fs)(filePath \<mapsto> newContent) \<rparr>
              \<and> newContent = take (si + length startMarker) fileContent @ [nl] @ enumString
                               @ [nl] @ lit ''    '' @ drop ei fileContent
              \<and> prefix (take (si + length startMarker) fileContent) newContent
              \<and> suffix (drop ei fileContent) newContent
              \<and> (si + length startMarker \<le> ei \<longrightarrow>
                    fileContent = take (si + length startMarker) fileContent
                      @ take (ei - (si + length startMarker))
                          (drop (si + length startMarker) fileContent)
                      @ drop ei fileContent)"
    if neq: "fs' \<noteq> fs"
  proof -
    obtain fileContent' enumString newContent where
      w: "files fs filePath = Some fileContent'"
         "injectEnum fileContent' enumString = Inr newContent"
         "fs' = fs \<lparr> files := (files fs)(filePath \<mapsto> newContent) \<rparr>"
      using generate_written [OF assms(2) neq] by metis
    have same: "fileContent' = fileContent" using w(1) assms(1) by simp
    obtain si ei where
      m: "firstOccurrence fileContent startMarker si"
         "firstOccurrence fileContent endMarker ei"
         "newContent = take (si + length startMarker) fileContent @ [nl] @ enumString @ [nl]
                    @ lit ''    '' @ drop ei fileContent"
      using injectEnum_Inr [OF w(2)] unfolding same by metis
    have p: "prefix (take (si + length startMarker) fileContent) newContent"
      unfolding m(3) by (rule prefixI) simp
    have s: "suffix (drop ei fileContent) newContent"
      unfolding m(3) suffix_def by (rule exI [of _ "take (si + length startMarker) fileContent @ [nl] @ enumString @ [nl] @ lit ''    ''"]) simp
    have mid: "fileContent = take (si + length startMarker) fileContent
                      @ take (ei - (si + length startMarker))
                          (drop (si + length startMarker) fileContent)
                      @ drop ei fileContent"
      if "si + length startMarker \<le> ei"
    proof -
      define a where "a = si + length startMarker"
      have 1: "drop (ei - a) (drop a fileContent) = drop ei fileContent"
        using that by (simp add: a_def)
      have "fileContent = take a fileContent
          @ take (ei - a) (drop a fileContent) @ drop (ei - a) (drop a fileContent)"
        by (simp only: append_take_drop_id)
      then have "fileContent = take a fileContent
          @ take (ei - a) (drop a fileContent) @ drop ei fileContent"
        by (simp only: 1)
      then show ?thesis
        by (simp only: a_def)
    qed
    show ?thesis
      using m w(3) p s mid by blast
  qed
  show ?thesis
    using absent written by blast
qed

lemma content0_markers:
  "firstOccurrence content0 startMarker 2" "firstOccurrence content0 endMarker 35"
proof -
  have "indexOf content0 startMarker = int 2"
    by (simp add: content0_def indexOf_def startsWith_def startMarker_def endMarker_def lit_def)
  then show "firstOccurrence content0 startMarker 2"
    by (simp only: indexOf_firstOccurrence)
  have "indexOf content0 endMarker = int 35"
    by (simp add: content0_def indexOf_def startsWith_def startMarker_def endMarker_def lit_def)
  then show "firstOccurrence content0 endMarker 35"
    by (simp only: indexOf_firstOccurrence)
qed

lemma try_success:
  assumes "send = Inr response" "ManagedRuleGroups response = Some groups" "groups \<noteq> []"
      and "readFileSync fs filePath = Inr fileContent"
      and "injectEnum fileContent (enumStringOf (ruleGroupMapOf groups)) = Inr newContent"
      and "writeFileSync fs filePath newContent = Inr fs'"
  shows "generateAndInject_try send fs =
     Inr (fs', lit ''AWS Managed Rules generated -- count: ''
               @ decimal (length (ruleGroupMapOf groups)))"
  by (simp add: generateAndInject_try_def assms Let_def)

lemma generate_content0:
  "generateAndInjectAwsManagedRuleEnum send0 fsWaf =
     Inr (fsWaf \<lparr> files := (files fsWaf)(filePath \<mapsto>
                   lit ''ab'' @ startMarker @ [nl] @ enum0 @ [nl] @ lit ''    ''
                   @ endMarker @ lit ''cd'') \<rparr>,
          ConsoleLog (lit ''AWS Managed Rules generated -- count: '' @ decimal 1))"
proof -
  have t: "take (2 + length startMarker) content0 = lit ''ab'' @ startMarker"
    by (simp add: content0_def lit_def)
  have d: "drop 35 content0 = endMarker @ lit ''cd''"
    by (simp add: content0_def lit_def startMarker_length)
  have "injectEnum content0 enum0 =
      Inr (lit ''ab'' @ startMarker @ [nl] @ enum0 @ [nl] @ lit ''    '' @ endMarker @ lit ''cd'')"
    using injectEnum_found [OF content0_markers, of enum0] by (simp only: t d append_assoc)
  then have inj: "injectEnum content0 (enumStringOf (ruleGroupMapOf [rule0])) =
      Inr (lit ''ab'' @ startMarker @ [nl] @ enum0 @ [nl] @ lit ''    '' @ endMarker @ lit ''cd'')"
    by (simp only: enum0_def [symmetric])
  have n: "length (ruleGroupMapOf [rule0]) = 1"
    by (simp add: ruleGroupMapOf_def rule0_def newMap_def hasNameAndDescription_def lit_def)
  have rd: "readFileSync fsWaf filePath = Inr content0"
    by (simp add: readFileSync_def fsWaf_def)
  have wr: "writeFileSync fsWaf filePath c =
      Inr (fsWaf \<lparr> files := (files fsWaf)(filePath \<mapsto> c) \<rparr>)" for c
    by (simp add: writeFileSync_def fsWaf_def)
  have "generateAndInject_try send0 fsWaf =
     Inr (fsWaf \<lparr> files := (files fsWaf)(filePath \<mapsto>
                   lit ''ab'' @ startMarker @ [nl] @ enum0 @ [nl] @ lit ''    ''
                   @ endMarker @ lit ''cd'') \<rparr>,
          lit ''AWS Managed Rules generated -- count: ''
               @ decimal (length (ruleGroupMapOf [rule0])))"
    by (rule try_success [OF send0_def _ _ rd inj wr]) simp_all
  then show ?thesis
    by (simp only: generateAndInjectAwsManagedRuleEnum_def n sum.case prod.case)
qed

theorem C5_injection_frame_witness:
  "files fsWaf filePath = Some content0
   \<and> generateAndInjectAwsManagedRuleEnum send0 fsWaf =
       Inr (fsWaf \<lparr> files := (files fsWaf)(filePath \<mapsto>
                     lit ''ab'' @ startMarker @ [nl] @ enum0 @ [nl] @ lit ''    ''
                     @ endMarker @ lit ''cd'') \<rparr>,
            ConsoleLog (lit ''AWS Managed Rules generated -- count: '' @ decimal 1))
   \<and> fsWaf \<lparr> files := (files fsWaf)(filePath \<mapsto>
                     lit ''ab'' @ startMarker @ [nl] @ enum0 @ [nl] @ lit ''    ''
                     @ endMarker @ lit ''cd'') \<rparr> \<noteq> fsWaf
   \<and> (\<exists>si ei enumString newContent.
          firstOccurrence content0 startMarker si
          \<and> firstOccurrence content0 endMarker ei
          \<and> fsWaf \<lparr> files := (files fsWaf)(filePath \<mapsto>
                     lit ''ab'' @ startMarker @ [nl] @ enum0 @ [nl] @ lit ''    ''
                     @ endMarker @ lit ''cd'') \<rparr>
              = fsWaf \<lparr> files := (files fsWaf)(filePath \<mapsto> newContent) \<rparr>
          \<and> prefix (take (si + length startMarker) content0) newContent
          \<and> suffix (drop ei content0) newContent)"
proof -
  let ?new = "lit ''ab'' @ startMarker @ [nl] @ enum0 @ [nl] @ lit ''    '' @ endMarker @ lit ''cd''"
  let ?fs' = "fsWaf \<lparr> files := (files fsWaf)(filePath \<mapsto> ?new) \<rparr>"
  have f: "files fsWaf filePath = Some content0"
    by (simp add: fsWaf_def)
  note g = generate_content0
  have "length ?new \<noteq> length content0"
    by (simp add: content0_def lit_def)
  then have "?new \<noteq> content0"
    by metis
  then have "files ?fs' filePath \<noteq> files fsWaf filePath"
    using f by simp
  then have ne: "?fs' \<noteq> fsWaf"
    by metis
  show ?thesis
    using f g ne C5_injection_frame [OF f g] by blast
qed

section \<open>A file with the markers in reverse order\<close>

lemma reversedMarkers_indices:
  "firstOccurrence reversedMarkers startMarker 34" "firstOccurrence reversedMarkers endMarker 0"
proof -
  have "indexOf reversedMarkers startMarker = int 34"
    by (simp add: reversedMarkers_def indexOf_def startsWith_def startMarker_def
        endMarker_def lit_def)
  then show "firstOccurrence reversedMarkers startMarker 34"
    by (simp only: indexOf_firstOccurrence)
  have "indexOf reversedMarkers endMarker = int 0"
    by (simp add: reversedMarkers_def indexOf_def startsWith_def startMarker_def
        endMarker_def lit_def)
  then show "firstOccurrence reversedMarkers endMarker 0"
    by (simp only: indexOf_firstOccurrence)
qed

lemma reversedMarkers_length: "length reversedMarkers = 64"
  by (simp add: reversedMarkers_def startMarker_length endMarker_length)

lemma reversedMarkers_once:
  "injectEnum reversedMarkers enum0 = Inr reversedOnce"
  using injectEnum_found [OF reversedMarkers_indices, of enum0]
  by (simp add: reversedOnce_def reversedMarkers_length startMarker_length)

lemma reversedMarkers_twice:
  "injectEnum reversedOnce enum0 =
     Inr (reversedMarkers @ [nl] @ enum0 @ [nl] @ lit ''    '' @ reversedOnce)"
proof -
  have s: "firstOccurrence reversedOnce startMarker 34"
    unfolding reversedOnce_def by (rule firstOccurrence_append) (rule reversedMarkers_indices)
  have e: "firstOccurrence reversedOnce endMarker 0"
    unfolding reversedOnce_def by (rule firstOccurrence_append) (rule reversedMarkers_indices)
  have "take (34 + length startMarker) reversedOnce = reversedMarkers"
    by (simp add: reversedOnce_def reversedMarkers_length startMarker_length)
  then show ?thesis
    using injectEnum_found [OF s e, of enum0] by simp
qed

text \<open>
  C5, as stated, fails: in a file that holds the end marker before the start marker
  there is no region between the markers. The run writes the whole old content, the
  enum, and the whole old content again: the part kept in front and the part kept
  behind overlap in the old file, so that more than a region between the markers
  changes.
\<close>

theorem C5_reversed_markers_counterexample:
  "files fsReversed filePath = Some reversedMarkers
   \<and> indexOf reversedMarkers startMarker = 34
   \<and> indexOf reversedMarkers endMarker = 0
   \<and> generateAndInjectAwsManagedRuleEnum send0 fsReversed =
       Inr (fsReversed \<lparr> files := (files fsReversed)(filePath \<mapsto>
                     reversedMarkers @ [nl] @ enum0 @ [nl] @ lit ''    '' @ reversedMarkers) \<rparr>,
            ConsoleLog (lit ''AWS Managed Rules generated -- count: '' @ decimal 1))
   \<and> take (34 + length startMarker) reversedMarkers = reversedMarkers
   \<and> drop 0 reversedMarkers = reversedMarkers
   \<and> length reversedMarkers
         < length (take (34 + length startMarker) reversedMarkers)
           + length (drop 0 reversedMarkers)"
proof -
  have f: "files fsReversed filePath = Some reversedMarkers"
    by (simp add: fsReversed_def)
  have "indexOf reversedMarkers startMarker = int 34" "indexOf reversedMarkers endMarker = int 0"
    using reversedMarkers_indices by (simp_all only: indexOf_firstOccurrence)
  then have i: "indexOf reversedMarkers startMarker = 34" "indexOf reversedMarkers endMarker = 0"
    by simp_all
  have inj: "injectEnum reversedMarkers (enumStringOf (ruleGroupMapOf [rule0])) =
      Inr (reversedMarkers @ [nl] @ enum0 @ [nl] @ lit ''    '' @ reversedMarkers)"
    using reversedMarkers_once by (simp only: enum0_def [symmetric] reversedOnce_def)
  have n: "length (ruleGroupMapOf [rule0]) = 1"
    by (simp add: ruleGroupMapOf_def rule0_def newMap_def hasNameAndDescription_def lit_def)
  have rd: "readFileSync fsReversed filePath = Inr reversedMarkers"
    by (simp add: readFileSync_def fsReversed_def)
  have wr: "writeFileSync fsReversed filePath c =
      Inr (fsReversed \<lparr> files := (files fsReversed)(filePath \<mapsto> c) \<rparr>)" for c
    by (simp add: writeFileSync_def fsReversed_def)
  have "generateAndInject_try send0 fsReversed =
     Inr (fsReversed \<lparr> files := (files fsReversed)(filePath \<mapsto>
                   reversedMarkers @ [nl] @ enum0 @ [nl] @ lit ''    '' @ reversedMarkers) \<rparr>,
          lit ''AWS Managed Rules generated -- count: ''
               @ decimal (length (ruleGroupMapOf [rule0])))"
    by (rule try_success [OF send0_def _ _ rd inj wr]) simp_all
  then have g: "generateAndInjectAwsManagedRuleEnum send0 fsReversed =
       Inr (fsReversed \<lparr> files := (files fsReversed)(filePath \<mapsto>
                     reversedMarkers @ [nl] @ enum0 @ [nl] @ lit ''    '' @ reversedMarkers) \<rparr>,
            ConsoleLog (lit ''AWS Managed Rules generated -- count: '' @ decimal 1))"
    by (simp only: generateAndInjectAwsManagedRuleEnum_def n sum.case prod.case)
  have t: "take (34 + length startMarker) reversedMarkers = reversedMarkers"
    by (simp add: reversedMarkers_length startMarker_length)
  have l: "length reversedMarkers
         < length (take (34 + length startMarker) reversedMarkers)
           + length (drop 0 reversedMarkers)"
    by (simp add: reversedMarkers_length startMarker_length)
  show ?thesis
    using f i g t l by simp
qed

section \<open>Applying the marker replacement twice\<close>

text \<open>
  C6, as stated, fails: in a file that holds both markers with the end marker before
  the start marker, the second application does not reproduce the result of the first.
\<close>

theorem C6_reversed_markers_counterexample:
  "includesStr reversedMarkers startMarker \<and> includesStr reversedMarkers endMarker
   \<and> injectEnum reversedMarkers enum0 = Inr reversedOnce
   \<and> injectEnum reversedOnce enum0 \<noteq> Inr reversedOnce"
proof -
  have "indexOf reversedMarkers startMarker = int 34" "indexOf reversedMarkers endMarker = int 0"
    using reversedMarkers_indices by (simp_all only: indexOf_firstOccurrence)
  then have both: "includesStr reversedMarkers startMarker" "includesStr reversedMarkers endMarker"
    by (simp_all add: includesStr_def)
  have "length (reversedMarkers @ [nl] @ enum0 @ [nl] @ lit ''    '' @ reversedOnce)
      \<noteq> length reversedOnce"
    by simp
  then have "reversedMarkers @ [nl] @ enum0 @ [nl] @ lit ''    '' @ reversedOnce \<noteq> reversedOnce"
    by metis
  then show ?thesis
    using both reversedMarkers_once reversedMarkers_twice by simp
qed

lemma drop_injected:
  assumes "length P = n"
  shows "drop (n + 1 + length E + 5) (P @ [nl] @ E @ [nl] @ lit ''    '' @ S) = S"
proof -
  let ?A = "P @ [nl] @ E @ [nl] @ lit ''    ''"
  have len: "length ?A = n + 1 + length E + 5"
    using assms by (simp add: lit_def)
  have "?A = take (length ?A) (?A @ S) \<and> S = drop (length ?A) (?A @ S)"
    by (rule append_eq_conv_conj [THEN iffD1, OF refl])
  then have "S = drop (length ?A) (?A @ S)"
    by (rule conjunct2)
  then have "drop (length ?A) (?A @ S) = S"
    by (rule sym)
  then have "drop (n + 1 + length E + 5) (?A @ S) = S"
    by (simp only: len)
  then show ?thesis
    by (simp only: append_assoc)
qed

lemma take_injected:
  assumes "length P = n"
  shows "take n (P @ R) = P"
  using assms by auto

lemma length_injected:
  assumes "length P = n"
  shows "n + 1 + length E + 5 \<le> length (P @ [nl] @ E @ [nl] @ lit ''    '' @ S)"
  using assms by (simp add: lit_def)

lemma once_start:
  assumes s: "firstOccurrence fileContent startMarker si"
  shows "firstOccurrence (take (si + length startMarker) fileContent @ r) startMarker si"
proof (rule firstOccurrence_append)
  let ?n = "si + length startMarker"
  have si: "si \<le> length fileContent" "startsWith (drop si fileContent) startMarker"
    and least: "\<And>j. j < si \<Longrightarrow> \<not> startsWith (drop j fileContent) startMarker"
    using s by (simp_all add: firstOccurrence_def)
  have len: "?n \<le> length fileContent"
    using startsWith_length [OF si(2)] si(1) by simp
  have "drop si (take ?n fileContent) = take (length startMarker) (drop si fileContent)"
    by (simp add: drop_take)
  also have "\<dots> = startMarker"
    using si(2) by (simp add: startsWith_def)
  finally have here: "startsWith (drop si (take ?n fileContent)) startMarker"
    by (simp add: startsWith_def)
  have "\<not> startsWith (drop j (take ?n fileContent)) startMarker" if "j < si" for j
  proof
    assume "startsWith (drop j (take ?n fileContent)) startMarker"
    moreover have "j + length startMarker \<le> ?n" using that by simp
    ultimately have "startsWith (drop j fileContent) startMarker"
      by (rule occurrence_in_prefix [rotated])
    then show False using least [OF that] by simp
  qed
  then show "firstOccurrence (take ?n fileContent) startMarker si"
    using here len by (simp add: firstOccurrence_def)
qed

lemma once_end:
  assumes e: "firstOccurrence fileContent endMarker ei"
      and order: "n \<le> ei"
      and enum: "\<not> includesStr enumString endMarker"
  shows "firstOccurrence
           (take n fileContent @ [nl] @ enumString @ [nl] @ lit ''    '' @ drop ei fileContent)
           endMarker (n + 1 + length enumString + 5)"
proof -
  let ?P = "take n fileContent"
  let ?S = "drop ei fileContent"
  let ?tail = "lit ''    '' @ ?S"
  let ?ys = "enumString @ nl # ?tail"
  let ?once = "?P @ nl # ?ys"
  let ?e1 = "n + 1 + length enumString + 5"
  have ei: "ei \<le> length fileContent" "startsWith ?S endMarker"
    and least: "\<And>j. j < ei \<Longrightarrow> \<not> startsWith (drop j fileContent) endMarker"
    using e by (simp_all add: firstOccurrence_def)
  have lenP: "length ?P = n"
    using order ei(1) by simp
  have ne: "endMarker \<noteq> []"
    using endMarker_length by auto
  have dropped: "drop ?e1 ?once = ?S"
    using drop_injected [OF lenP, of enumString ?S] by simp
  have bound: "?e1 \<le> length ?once"
    using length_injected [OF lenP, of enumString ?S] by simp
  have none: "\<not> startsWith (drop j ?once) endMarker" if j: "j < ?e1" for j
  proof
    assume occ: "startsWith (drop j ?once) endMarker"
    from occurrence_split [OF nl_notin_endMarker ne occ]
    show False
    proof
      assume a: "j + length endMarker \<le> length ?P \<and> startsWith (drop j ?P) endMarker"
      then have "startsWith (drop j fileContent) endMarker"
        using occurrence_in_prefix [of j endMarker n fileContent] lenP by simp
      moreover have "j < ei"
        using a lenP order endMarker_length by simp
      ultimately show False using least by blast
    next
      assume b: "length ?P < j \<and> startsWith (drop (j - length ?P - 1) ?ys) endMarker"
      let ?j1 = "j - length ?P - 1"
      from b have occ1: "startsWith (drop ?j1 (enumString @ nl # ?tail)) endMarker"
        by simp
      from occurrence_split [OF nl_notin_endMarker ne occ1]
      show False
      proof
        assume "?j1 + length endMarker \<le> length enumString
            \<and> startsWith (drop ?j1 enumString) endMarker"
        then have "includesStr enumString endMarker"
          unfolding includesStr_iff by (intro exI [of _ ?j1]) simp
        then show False using enum by simp
      next
        assume c: "length enumString < ?j1
            \<and> startsWith (drop (?j1 - length enumString - 1) ?tail) endMarker"
        have "?j1 - length enumString - 1 < 4"
          using j b c lenP by simp
        then show False
          using c endMarker_not_in_indent by blast
      qed
    qed
  qed
  have "firstOccurrence ?once endMarker ?e1"
    unfolding firstOccurrence_def
    using bound dropped ei(2) none by simp
  then show ?thesis by simp
qed

text \<open>
  C6, amended: when the first end marker of the file stands behind the first start
  marker and the enum string does not contain the end marker, the result of one
  application holds the start marker, a newline, the enum, a newline and four spaces,
  and the end marker in a row, and a second application with the same enum string gives
  the same content again.
\<close>

theorem C6_idempotent_markers_in_order:
  assumes "injectEnum fileContent enumString = Inr once"
      and "indexOf fileContent startMarker + int (length startMarker)
             \<le> indexOf fileContent endMarker"
      and "\<not> includesStr enumString endMarker"
  shows "injectEnum once enumString = Inr once
       \<and> (\<exists>before after. once = before @ startMarker @ [nl] @ enumString @ [nl]
                                    @ lit ''    '' @ endMarker @ after)"
proof -
  obtain si ei where
    m: "firstOccurrence fileContent startMarker si"
       "firstOccurrence fileContent endMarker ei"
       "once = take (si + length startMarker) fileContent @ [nl] @ enumString @ [nl]
                    @ lit ''    '' @ drop ei fileContent"
    using injectEnum_Inr [OF assms(1)] by metis
  have idx: "indexOf fileContent startMarker = int si" "indexOf fileContent endMarker = int ei"
    using m(1,2) by (simp_all add: indexOf_firstOccurrence)
  let ?n = "si + length startMarker"
  have order: "?n \<le> ei"
    using assms(2) unfolding idx by simp
  have si: "si \<le> length fileContent" "startsWith (drop si fileContent) startMarker"
    and ei: "ei \<le> length fileContent" "startsWith (drop ei fileContent) endMarker"
    using m(1,2) by (simp_all add: firstOccurrence_def)
  have lenP: "length (take ?n fileContent) = ?n"
    using order ei(1) by simp
  have s1: "firstOccurrence once startMarker si"
    unfolding m(3) by (rule once_start [OF m(1)])
  have e1: "firstOccurrence once endMarker (?n + 1 + length enumString + 5)"
    unfolding m(3) by (rule once_end [OF m(2) order assms(3)])
  have tk: "take ?n once = take ?n fileContent"
    unfolding m(3) by (rule take_injected [OF lenP])
  have dr: "drop (?n + 1 + length enumString + 5) once = drop ei fileContent"
    unfolding m(3) by (rule drop_injected [OF lenP])
  have twice: "injectEnum once enumString = Inr once"
    using injectEnum_found [OF s1 e1, of enumString] tk dr m(3) by simp
  have "take ?n fileContent = take si fileContent @ take (length startMarker) (drop si fileContent)"
    by (simp add: take_add)
  then have p: "take ?n fileContent = take si fileContent @ startMarker"
    using si(2) by (simp add: startsWith_def)
  have "drop ei fileContent =
      take (length endMarker) (drop ei fileContent) @ drop (length endMarker) (drop ei fileContent)"
    by (simp only: append_take_drop_id)
  then have s: "drop ei fileContent = endMarker @ drop (length endMarker) (drop ei fileContent)"
    using ei(2) by (simp add: startsWith_def)
  have "once = take si fileContent @ startMarker @ [nl] @ enumString @ [nl]
                 @ lit ''    '' @ endMarker @ drop (length endMarker) (drop ei fileContent)"
    using m(3) p s by simp
  then show ?thesis using twice by blast
qed

lemma enum0_value:
  "enum0 = lit ''    export enum AwsManagedRuleGroup {'' @ [nl]
     @ lit ''        /** PHP rules */'' @ [nl]
     @ lit ''        PHP_RULE_SET = '' @ [39] @ lit ''AWSManagedRulesPHPRuleSet'' @ [39] @ [nl]
     @ lit ''    }''"
  by (simp add: enum0_def enumStringOf_def ruleGroupMapOf_def rule0_def newMap_def
      hasNameAndDescription_def enumEntry_def formatRuleGroupName_def toUpperCase_def
      isLower_def isUpper_def startsWith_def lit_def nl_def Let_def)

lemma enum0_no_endMarker: "\<not> includesStr enum0 endMarker"
  unfolding enum0_value
  by (simp add: includesStr_def indexOf_def startsWith_def endMarker_def lit_def nl_def)

theorem C6_idempotent_markers_in_order_witness:
  "\<exists>once. injectEnum content0 enum0 = Inr once
     \<and> indexOf content0 startMarker + int (length startMarker) \<le> indexOf content0 endMarker
     \<and> \<not> includesStr enum0 endMarker
     \<and> injectEnum once enum0 = Inr once"
proof -
  have i: "indexOf content0 startMarker = int 2" "indexOf content0 endMarker = int 35"
    using content0_markers by (simp_all only: indexOf_firstOccurrence)
  have order: "indexOf content0 startMarker + int (length startMarker) \<le> indexOf content0 endMarker"
    unfolding i by (simp add: startMarker_length)
  obtain once where once: "injectEnum content0 enum0 = Inr once"
    using injectEnum_found [OF content0_markers] by blast
  show ?thesis
    using once order enum0_no_endMarker
      C6_idempotent_markers_in_order [OF once order enum0_no_endMarker]
    by blast
qed

section \<open>parseApiDoc: each item is pushed at most once\<close>

lemma fst_newItem [simp]: "fst (newItem lines i line) = i"
  by (simp add: newItem_def Let_def)

lemma listRefs_simps [simp]:
  "listRefs (st \<lparr> constructs := constructs st @ [c] \<rparr>) = add_mset (fst c) (listRefs st)"
  "listRefs (st \<lparr> aspects := aspects st @ [c] \<rparr>) = add_mset (fst c) (listRefs st)"
  "listRefs (st \<lparr> patterns := patterns st @ [c] \<rparr>) = add_mset (fst c) (listRefs st)"
  "listRefs (st \<lparr> currentItem := x \<rparr>) = listRefs st"
  "listRefs (st \<lparr> inIgnoredSection := b \<rparr>) = listRefs st"
  by (simp_all add: listRefs_def)

lemma currentRef_simps [simp]:
  "currentRef (st \<lparr> constructs := cs \<rparr>) = currentRef st"
  "currentRef (st \<lparr> aspects := as \<rparr>) = currentRef st"
  "currentRef (st \<lparr> patterns := ps \<rparr>) = currentRef st"
  "currentRef (st \<lparr> inIgnoredSection := b \<rparr>) = currentRef st"
  "currentRef (st \<lparr> currentItem := None \<rparr>) = {#}"
  "currentRef (st \<lparr> currentItem := Some c \<rparr>) = {#fst c#}"
  by (simp_all add: currentRef_def)

lemma pushPrevious_refs:
  "listRefs (pushPrevious line st) \<subseteq># listRefs st + currentRef st"
  by (auto simp: pushPrevious_def Let_def currentRef_def split: option.splits)

lemma pushPrevious_current [simp]:
  "currentItem (pushPrevious line st) = currentItem st"
  by (simp add: pushPrevious_def Let_def split: option.splits)

lemma pushPrevious_no_match:
  "matchId line = None \<Longrightarrow> pushPrevious line st = st"
  by (simp add: pushPrevious_def split: option.splits)

lemma processHeader_no_match:
  "matchId line = None \<Longrightarrow> processHeader lines i line st = st"
  by (simp add: processHeader_def pushPrevious_no_match)

lemma processHeader_refs:
  assumes "matchId line = Some v" and fresh: "i \<notin># listRefs st + currentRef st"
  shows "listRefs (processHeader lines i line st) + currentRef (processHeader lines i line st)
           \<subseteq># add_mset i (listRefs st + currentRef st)"
    and "i \<in># listRefs (processHeader lines i line st)
                  + currentRef (processHeader lines i line st)
         \<Longrightarrow> \<not> includesStr (toLowerCase v) (lit ''.types.'')"
proof -
  let ?st = "pushPrevious line st"
  let ?R = "listRefs st + currentRef st"
  let ?st' = "processHeader lines i line st"
  have sub: "listRefs ?st \<subseteq># ?R"
    by (rule pushPrevious_refs)
  have "?R \<subseteq># add_mset i ?R"
    by simp
  then have sub1: "listRefs ?st \<subseteq># add_mset i ?R"
    using sub by (rule subset_mset.order_trans [rotated])
  have sub2: "add_mset i (listRefs ?st) \<subseteq># add_mset i ?R"
    using sub by simp
  have both: "listRefs ?st' + currentRef ?st' \<subseteq># add_mset i ?R
      \<and> (i \<in># listRefs ?st' + currentRef ?st' \<longrightarrow> \<not> includesStr (toLowerCase v) (lit ''.types.''))"
  proof (cases "includesStr (toLowerCase v) (lit ''.types.'')")
    case True
    then have eq: "?st' = ?st \<lparr> currentItem := None \<rparr>"
      using assms(1) by (simp add: processHeader_def Let_def)
    have "i \<notin># listRefs ?st"
      using fresh sub by (meson mset_subset_eqD)
    then show ?thesis
      unfolding eq using sub1 by simp
  next
    case False
    then have "listRefs ?st' + currentRef ?st' = add_mset i (listRefs ?st)"
      using assms(1) by (simp add: processHeader_def Let_def)
    then show ?thesis
      using sub2 False by simp
  qed
  show "listRefs ?st' + currentRef ?st' \<subseteq># add_mset i ?R"
    using both by simp
  show "\<not> includesStr (toLowerCase v) (lit ''.types.'')"
    if "i \<in># listRefs ?st' + currentRef ?st'"
    using both that by blast
qed

lemma parseLine_refs:
  assumes fresh: "i \<notin># listRefs st + currentRef st" and "i < length lines"
  shows "listRefs (parseLine lines i st) + currentRef (parseLine lines i st)
           \<subseteq># add_mset i (listRefs st + currentRef st)"
    and "i \<in># listRefs (parseLine lines i st) + currentRef (parseLine lines i st)
         \<Longrightarrow> createsItem lines i"
proof -
  let ?line = "trim (lines ! i)"
  let ?R = "listRefs st + currentRef st"
  let ?st' = "parseLine lines i st"
  let ?st0 = "if startsWith ?line (lit ''## '') then st \<lparr> inIgnoredSection := False \<rparr> else st"
  have refs0: "listRefs ?st0 = listRefs st" "currentRef ?st0 = currentRef st"
    by simp_all
  have "?st' = st \<lparr> inIgnoredSection := True \<rparr> \<or> ?st' = ?st0
      \<or> (startsWith ?line (lit ''### '') \<and> ?st' = processHeader lines i ?line ?st0)"
    by (simp add: parseLine_def Let_def)
  then have cases: "listRefs ?st' + currentRef ?st' = ?R
      \<or> (startsWith ?line (lit ''### '') \<and> ?st' = processHeader lines i ?line ?st0)"
    using refs0 by (elim disjE) simp_all
  from cases have "listRefs ?st' + currentRef ?st' \<subseteq># add_mset i ?R
      \<and> (i \<in># listRefs ?st' + currentRef ?st' \<longrightarrow> createsItem lines i)"
  proof
    assume "listRefs ?st' + currentRef ?st' = ?R"
    then show ?thesis using fresh by simp
  next
    assume "startsWith ?line (lit ''### '') \<and> ?st' = processHeader lines i ?line ?st0"
    then obtain st0 where h: "startsWith ?line (lit ''### '')"
      "listRefs st0 = listRefs st" "currentRef st0 = currentRef st"
      "?st' = processHeader lines i ?line st0"
      using refs0 by blast
    have fresh0: "i \<notin># listRefs st0 + currentRef st0"
      using fresh h(2,3) by simp
    show ?thesis
    proof (cases "matchId ?line")
      case None
      then show ?thesis
        using h fresh by (simp add: processHeader_no_match)
    next
      case (Some v)
      show ?thesis
        using processHeader_refs [OF Some fresh0, of lines] h assms(2) Some
        by (simp add: createsItem_def)
    qed
  qed
  then show "listRefs ?st' + currentRef ?st' \<subseteq># add_mset i ?R"
    and "i \<in># listRefs ?st' + currentRef ?st' \<Longrightarrow> createsItem lines i"
    by blast+
qed

lemma parseLine_inv:
  assumes "parseInv lines i st" "i < length lines"
  shows "parseInv lines (i + 1) (parseLine lines i st)"
proof -
  let ?R = "listRefs st + currentRef st"
  let ?R' = "listRefs (parseLine lines i st) + currentRef (parseLine lines i st)"
  have cnt: "\<And>r. count ?R r \<le> 1"
    and old: "\<And>r. r \<in># ?R \<Longrightarrow> r < i \<and> createsItem lines r"
    using assms(1) unfolding parseInv_def by blast+
  have fresh: "i \<notin># ?R"
    using old by blast
  note step = parseLine_refs [OF fresh assms(2)]
  have "count ?R' r \<le> 1" for r
  proof -
    have "count ?R' r \<le> count (add_mset i ?R) r"
      using step(1) by (rule mset_subset_eq_count)
    also have "\<dots> \<le> 1"
    proof (cases "r = i")
      case True
      then show ?thesis using fresh by (simp add: not_in_iff)
    next
      case False
      then show ?thesis using cnt [of r] by simp
    qed
    finally show ?thesis .
  qed
  moreover have "r < i + 1 \<and> createsItem lines r" if "r \<in># ?R'" for r
  proof (cases "r = i")
    case True
    then show ?thesis using that step(2) by simp
  next
    case False
    have "r \<in># add_mset i ?R"
      using that step(1) by (meson mset_subset_eqD)
    then show ?thesis using False old [of r] by simp
  qed
  ultimately show ?thesis
    unfolding parseInv_def by blast
qed

lemma parseLoop_inv:
  assumes "parseInv lines i st"
  shows "parseInv lines (max i (length lines)) (parseLoop lines i st)"
  using assms
proof (induction lines i st rule: parseLoop.induct)
  case (1 lines i st)
  show ?case
  proof (cases "i < length lines")
    case True
    have "parseInv lines (max (i + 1) (length lines)) (parseLoop lines (i + 1) (parseLine lines i st))"
      using "1.IH" [OF True parseLine_inv [OF "1.prems" True]] .
    moreover have "max (i + 1) (length lines) = max i (length lines)"
      using True by simp
    ultimately show ?thesis
      using True by (simp add: parseLoop.simps [of lines i st])
  next
    case False
    then show ?thesis
      using "1.prems" by (simp add: parseLoop.simps [of lines i st] max_def)
  qed
qed

lemma parseInv_parseState0: "parseInv lines 0 parseState0"
  by (simp add: parseInv_def parseState0_def listRefs_def currentRef_def)

lemma toLowerCase_types:
  assumes "includesStr v (lit ''.types.'')"
  shows "includesStr (toLowerCase v) (lit ''.types.'')"
proof -
  let ?f = "\<lambda>c::jschar. if isUpper c then c + 32 else c"
  obtain i where i: "i \<le> length v" "take (length (lit ''.types.'')) (drop i v) = lit ''.types.''"
    using assms unfolding includesStr_iff startsWith_def by blast
  have fixed: "map ?f (lit ''.types.'') = lit ''.types.''"
    by (simp add: lit_def isUpper_def)
  have "take (length (lit ''.types.'')) (drop i (map ?f v))
      = map ?f (take (length (lit ''.types.'')) (drop i v))"
    by (simp only: take_map drop_map)
  also have "\<dots> = lit ''.types.''"
    by (simp only: i(2) fixed)
  finally have "startsWith (drop i (toLowerCase v)) (lit ''.types.'')"
    by (simp only: startsWith_def toLowerCase_def)
  then show ?thesis
    unfolding includesStr_iff using i(1) by (auto simp: toLowerCase_def)
qed

text \<open>
  C10: in the result of parseApiDoc on any content, no object stands twice in the
  three arrays taken together, so each item is in at most one array and at most once
  there. Every object in the arrays was created at a line that is a \<open>### \<close> header, and
  a line whose id attribute holds \<open>.types.\<close> has created none of them.
\<close>

theorem C10_items_pushed_once:
  "distinct (map fst (allItems (parseContent content)))
   \<and> (\<forall>r \<in> fst ` set (allItems (parseContent content)).
         r < length (split content nl)
         \<and> startsWith (trim (split content nl ! r)) (lit ''### ''))
   \<and> (\<forall>i v. i < length (split content nl)
         \<and> matchId (trim (split content nl ! i)) = Some v
         \<and> includesStr v (lit ''.types.'')
         \<longrightarrow> i \<notin> fst ` set (allItems (parseContent content)))"
proof -
  let ?lines = "split content nl"
  let ?st = "parseLoop ?lines 0 parseState0"
  let ?d = "parseContent content"
  have inv: "parseInv ?lines (length ?lines) ?st"
    using parseLoop_inv [OF parseInv_parseState0, of ?lines] by simp
  have refs: "mset (map fst (allItems ?d)) = listRefs ?st + currentRef ?st"
    by (simp add: parseContent_def Let_def allItems_def listRefs_def currentRef_def
        split: option.splits)
  have cnt: "\<And>r. count (mset (map fst (allItems ?d))) r \<le> 1"
    and made: "\<And>r. r \<in> set (map fst (allItems ?d)) \<Longrightarrow> createsItem ?lines r"
    using inv unfolding parseInv_def refs [symmetric] by (blast, simp)
  have d: "distinct (map fst (allItems ?d))"
    unfolding distinct_count_atmost_1 using cnt
    by (metis count_mset_0_iff le_neq_implies_less less_one)
  have hdr: "r < length ?lines \<and> startsWith (trim (?lines ! r)) (lit ''### '')"
    if "r \<in> fst ` set (allItems ?d)" for r
    using made [of r] that by (simp add: createsItem_def)
  have ty: "i \<notin> fst ` set (allItems ?d)"
    if "matchId (trim (?lines ! i)) = Some v" "includesStr v (lit ''.types.'')" for i v
  proof
    assume "i \<in> fst ` set (allItems ?d)"
    then have "createsItem ?lines i" using made [of i] by simp
    then have "\<not> includesStr (toLowerCase v) (lit ''.types.'')"
      using that(1) by (simp add: createsItem_def)
    then show False using toLowerCase_types [OF that(2)] by simp
  qed
  show ?thesis
    using d hdr ty by blast
qed

lemmas evals = lit_def header_def nl_def dquote_def idAttr_def startsWith_def indexOf_def
  includesStr_def trim_def isSpace_def toLowerCase_def isUpper_def Let_def

lemma apiTypes_lines:
  "split apiTypes nl = [header ''Ty'' ''a.types.Ty'', header ''Foo'' ''a.constructs.Foo'']"
  by (simp add: apiTypes_def evals)

lemma apiTypes_first_line:
  "matchId (trim (header ''Ty'' ''a.types.Ty'')) = Some (lit ''a.types.Ty'')"
  "includesStr (lit ''a.types.Ty'') (lit ''.types.'')"
  by (simp_all add: evals)

lemma apiTypes_items: "map fst (allItems (parseContent apiTypes)) = [1]"
  apply (simp add: parseContent_def apiTypes_lines allItems_def)
  apply (simp add: parseLoop.simps parseLine_def processHeader_def pushPrevious_def
      parseState0_def newItem_def evals)
  done

theorem C10_items_pushed_once_witness:
  "0 < length (split apiTypes nl)
   \<and> matchId (trim (split apiTypes nl ! 0)) = Some (lit ''a.types.Ty'')
   \<and> includesStr (lit ''a.types.Ty'') (lit ''.types.'')
   \<and> 0 \<notin> fst ` set (allItems (parseContent apiTypes))
   \<and> 1 \<in> fst ` set (allItems (parseContent apiTypes))
   \<and> 1 < length (split apiTypes nl)
   \<and> startsWith (trim (split apiTypes nl ! 1)) (lit ''### '')
   \<and> distinct (map fst (allItems (parseContent apiTypes)))"
proof -
  have a: "0 < length (split apiTypes nl)"
    "matchId (trim (split apiTypes nl ! 0)) = Some (lit ''a.types.Ty'')"
    "includesStr (lit ''a.types.Ty'') (lit ''.types.'')"
    using apiTypes_first_line by (simp_all add: apiTypes_lines)
  have "set (map fst (allItems (parseContent apiTypes))) = {1}"
    by (simp only: apiTypes_items) simp
  then have b: "1 \<in> fst ` set (allItems (parseContent apiTypes))"
    by simp
  show ?thesis
    using a b C10_items_pushed_once [of apiTypes] by blast
qed

section \<open>The generator scripts and the errors of their runs\<close>

text \<open>
  C7, as stated, fails for the README generator: the script has no handler at all, and
  with no API.md in the working directory the error of \<open>readFileSync\<close> leaves the
  script.
\<close>

theorem C7_readme_script_counterexample:
  "updateReadmeLibrary fsEmpty = Inl (ENOENT apiPath)"
  by (simp add: updateReadmeLibrary_def parseApiDoc_def readFileSync_def fsEmpty_def)

lemma updateReadmeLibrary_throws:
  "(\<exists>e. updateReadmeLibrary fs = Inl e) =
     (files fs apiPath = None \<or> files fs readmePath = None \<or> readmePath \<in> set (readOnly fs))"
  by (auto simp: updateReadmeLibrary_def parseApiDoc_def readFileSync_def writeFileSync_def
      Let_def split: option.splits sum.splits)

text \<open>
  C7, amended: generateAndInjectAwsManagedRuleEnum returns on every response and every
  file system; an error raised in its \<open>try\<close> block (a failure of the SDK call, an empty
  list of rule groups, a failure to read the file, a missing marker, a failure to write)
  is logged with console.error and the file system is left as it was. The README
  generator script has no handler: an error leaves it exactly when API.md or README.md
  cannot be read or README.md cannot be written.
\<close>

theorem C7_generate_catches:
  "(\<exists>fs' out. generateAndInjectAwsManagedRuleEnum send fs = Inr (fs', out))
   \<and> (\<forall>e. generateAndInject_try send fs = Inl e \<longrightarrow>
         generateAndInjectAwsManagedRuleEnum send fs =
           Inr (fs, ConsoleError (lit ''Error generating and injecting enum:'') e))
   \<and> ((\<exists>e. updateReadmeLibrary fs = Inl e) =
        (files fs apiPath = None \<or> files fs readmePath = None
         \<or> readmePath \<in> set (readOnly fs)))"
proof -
  have "generateAndInjectAwsManagedRuleEnum send fs =
           Inr (fs, ConsoleError (lit ''Error generating and injecting enum:'') e)"
    if "generateAndInject_try send fs = Inl e" for e
    using that by (simp add: generateAndInjectAwsManagedRuleEnum_def)
  then show ?thesis
    using generate_total [of send fs] updateReadmeLibrary_throws [of fs] by blast
qed

lemma try_errors:
  "generateAndInject_try (Inl (SdkError (lit ''timeout''))) fsWaf = Inl (SdkError (lit ''timeout''))"
  "generateAndInject_try (Inr \<lparr> ManagedRuleGroups = None \<rparr>) fsWaf =
     Inl (Error (lit ''No managed rule groups found''))"
  "generateAndInject_try send0 fsEmpty = Inl (ENOENT filePath)"
  "generateAndInject_try send0 (fsWaf \<lparr> files := [filePath \<mapsto> lit ''no markers''] \<rparr>) =
     Inl (Error (lit ''Could not find injection markers in the file''))"
proof -
  show "generateAndInject_try (Inl (SdkError (lit ''timeout''))) fsWaf = Inl (SdkError (lit ''timeout''))"
    by (simp add: generateAndInject_try_def)
  show "generateAndInject_try (Inr \<lparr> ManagedRuleGroups = None \<rparr>) fsWaf =
     Inl (Error (lit ''No managed rule groups found''))"
    by (simp add: generateAndInject_try_def)
  show "generateAndInject_try send0 fsEmpty = Inl (ENOENT filePath)"
    by (simp add: generateAndInject_try_def send0_def readFileSync_def fsEmpty_def)
  have "indexOf (lit ''no markers'') startMarker = - 1"
    by (simp add: indexOf_def startsWith_def startMarker_def lit_def)
  then have "\<exists>e. injectEnum (lit ''no markers'') (enumStringOf (ruleGroupMapOf [rule0])) = Inl e"
    by (simp only: injectEnum_Inl) simp
  then have "injectEnum (lit ''no markers'') (enumStringOf (ruleGroupMapOf [rule0])) =
      Inl (Error (lit ''Could not find injection markers in the file''))"
    by (auto simp: injectEnum_def Let_def split: if_splits)
  then show "generateAndInject_try send0 (fsWaf \<lparr> files := [filePath \<mapsto> lit ''no markers''] \<rparr>) =
     Inl (Error (lit ''Could not find injection markers in the file''))"
    by (simp add: generateAndInject_try_def send0_def readFileSync_def fsWaf_def)
qed

theorem C7_generate_catches_witness:
  "generateAndInject_try send0 fsEmpty = Inl (ENOENT filePath)
   \<and> generateAndInjectAwsManagedRuleEnum send0 fsEmpty =
       Inr (fsEmpty, ConsoleError (lit ''Error generating and injecting enum:'') (ENOENT filePath))
   \<and> generateAndInjectAwsManagedRuleEnum (Inr \<lparr> ManagedRuleGroups = None \<rparr>) fsWaf =
       Inr (fsWaf, ConsoleError (lit ''Error generating and injecting enum:'')
                     (Error (lit ''No managed rule groups found'')))
   \<and> generateAndInjectAwsManagedRuleEnum send0
         (fsWaf \<lparr> files := [filePath \<mapsto> lit ''no markers''] \<rparr>) =
       Inr (fsWaf \<lparr> files := [filePath \<mapsto> lit ''no markers''] \<rparr>,
            ConsoleError (lit ''Error generating and injecting enum:'')
              (Error (lit ''Could not find injection markers in the file'')))"
  using try_errors
    C7_generate_catches [of send0 fsEmpty]
    C7_generate_catches [of "Inr \<lparr> ManagedRuleGroups = None \<rparr>" fsWaf]
    C7_generate_catches [of send0 "fsWaf \<lparr> files := [filePath \<mapsto> lit ''no markers''] \<rparr>"]
  by blast

section \<open>The README generator: the replaced span and the inserted section\<close>

lemma getSubstitution_skip:
  "c \<noteq> dollar \<Longrightarrow>
     getSubstitution m b a (c # r) = c # getSubstitution m b a r"
  by (cases r) simp_all

lemma getSubstitution_append:
  "dollar \<notin> set r1 \<Longrightarrow>
     getSubstitution m b a (r1 @ r2) = r1 @ getSubstitution m b a r2"
proof (induction r1)
  case Nil
  then show ?case by simp
next
  case (Cons c r1)
  then have "c \<noteq> dollar" and "dollar \<notin> set r1"
    by auto
  then show ?case
    using Cons.IH getSubstitution_skip [of c m b a "r1 @ r2"] by simp
qed

lemma getSubstitution_plain:
  "dollar \<notin> set r \<Longrightarrow> getSubstitution m b a r = r"
  using getSubstitution_append [of r m b a "[]"] by simp

lemma sectionLength_le: "sectionLength s \<le> length s"
  by (induction s) simp_all

lemma sectionLength_stop:
  "sectionLength s = length s \<or> startsWith (drop (sectionLength s) s) (nl # lit ''## '')"
  by (induction s) auto

lemma sectionLength_least:
  "k < sectionLength s \<Longrightarrow> \<not> startsWith (drop k s) (nl # lit ''## '')"
proof (induction s arbitrary: k)
  case Nil
  then show ?case by simp
next
  case (Cons c s)
  then show ?case
    by (cases k) (auto split: if_splits)
qed

lemma replaceLibrary_absent:
  "indexOf readme libraryHeading = - 1 \<Longrightarrow> replaceLibrary readme r = readme"
  by (simp add: replaceLibrary_def)

text \<open>
  With a replacement that holds no dollar sign, the text before the first heading and
  the text from the end of the section on are kept, and the replacement stands between
  them as it is.
\<close>

lemma replaceLibrary_frame:
  assumes "firstOccurrence readme libraryHeading i" and "dollar \<notin> set r"
  shows "replaceLibrary readme r =
     take i readme @ r
     @ drop (sectionLength (drop (i + length libraryHeading) readme))
         (drop (i + length libraryHeading) readme)"
proof -
  have "indexOf readme libraryHeading = int i"
    using assms(1) by (simp add: indexOf_firstOccurrence)
  then show ?thesis
    by (simp add: replaceLibrary_def Let_def getSubstitution_plain [OF assms(2)])
qed

lemma generateMarkdown_total:
  "prefix (lit ''Total: '' @ decimal (length cs + length as + length ps) @ [nl, nl])
     (generateMarkdown cs as ps)"
  unfolding generateMarkdown_def by (rule prefixI) simp

subsection \<open>A description with two dollar signs\<close>

lemma decimal_small:
  "decimal 0 = lit ''0''" "decimal 1 = lit ''1''" "decimal (Suc 0) = lit ''1''"
  by (simp_all add: decimal.simps digit_def lit_def)

lemma apiDollar_parsed:
  "parseContent apiDollar = \<lparr> constructs = [(0, itemParsed)], aspects = [], patterns = [] \<rparr>"
proof -
  have l: "split apiDollar nl = [header ''Foo'' ''@x/lib.constructs.Foo'', lit ''costs $$5'']"
    by (simp add: apiDollar_def evals)
  show ?thesis
    apply (simp add: parseContent_def l)
    apply (simp add: parseLoop.simps parseLine_def processHeader_def pushPrevious_def
        parseState0_def newItem_def replaceFirst_def itemParsed_def evals)
    done
qed

lemma itemLines:
  "itemLine itemParsed = lineHead @ dollar # dollar # lit ''5'' @ [nl]"
  "itemLine itemWritten = lineHead @ dollar # lit ''5'' @ [nl]"
proof -
  have "lit ''costs $$5'' = lit ''costs '' @ dollar # dollar # lit ''5''"
    "lit ''costs $5'' = lit ''costs '' @ dollar # lit ''5''"
    by (simp_all add: lit_def dollar_def)
  then show "itemLine itemParsed = lineHead @ dollar # dollar # lit ''5'' @ [nl]"
    "itemLine itemWritten = lineHead @ dollar # lit ''5'' @ [nl]"
    by (simp_all add: itemLine_def itemParsed_def itemWritten_def lineHead_def Let_def)
qed

lemma sections:
  "newLibrarySection (generateMarkdown [itemParsed] [] []) =
     sectionHead @ dollar # dollar # sectionTail"
  "newLibrarySection (generateMarkdown [itemWritten] [] []) =
     sectionHead @ dollar # sectionTail"
  by (simp_all add: newLibrarySection_def generateMarkdown_def itemLines sectionHead_def
      sectionTail_def)

lemma no_dollar:
  "dollar \<notin> set sectionHead" "dollar \<notin> set sectionTail"
proof -
  have "replaceSpaces (toLowerCase (lit ''Foo'')) = lit ''foo''"
    by (simp add: evals)
  then show "dollar \<notin> set sectionHead"
    by (simp add: sectionHead_def lineHead_def libraryHeading_def libraryIntro_def
        constructsHeading_def constructsText_def decimal_small lit_def dollar_def nl_def)
  show "dollar \<notin> set sectionTail"
    by (simp add: sectionTail_def aspectsHeading_def aspectsText_def patternsHeading_def
        patternsText_def decimal_small lit_def dollar_def nl_def)
qed

lemma substituted:
  "getSubstitution m b a (newLibrarySection (generateMarkdown [itemParsed] [] [])) =
     newLibrarySection (generateMarkdown [itemWritten] [] [])"
proof -
  have "getSubstitution m b a (sectionHead @ dollar # dollar # sectionTail)
      = sectionHead @ getSubstitution m b a (dollar # dollar # sectionTail)"
    by (rule getSubstitution_append [OF no_dollar(1)])
  also have "getSubstitution m b a (dollar # dollar # sectionTail)
      = dollar # getSubstitution m b a sectionTail"
    by simp
  also have "getSubstitution m b a sectionTail = sectionTail"
    by (rule getSubstitution_plain [OF no_dollar(2)])
  finally show ?thesis
    by (simp only: sections)
qed

lemma replaceLibrary_found:
  assumes "indexOf readme libraryHeading = int i"
      and "drop (i + length libraryHeading) readme = rest"
      and "sectionLength rest = n"
  shows "replaceLibrary readme r =
     take i readme @ getSubstitution (libraryHeading @ take n rest) (take i readme) (drop n rest) r
     @ drop n rest"
  by (simp add: replaceLibrary_def Let_def assms)

lemma readme1_replaced:
  "replaceLibrary readme1 r =
     lit ''# lib'' @ [nl]
     @ getSubstitution (libraryHeading @ [nl] @ lit ''old'') (lit ''# lib'' @ [nl])
         ([nl] @ lit ''## License'' @ [nl]) r
     @ [nl] @ lit ''## License'' @ [nl]"
proof -
  have i: "indexOf readme1 libraryHeading = int 6"
    by (simp add: readme1_def libraryHeading_def evals)
  have len: "length libraryHeading = 13"
    by (simp add: libraryHeading_def lit_def)
  have rest: "drop (6 + length libraryHeading) readme1 = readme1Rest"
    by (simp add: len readme1_def readme1Rest_def libraryHeading_def lit_def)
  have n: "sectionLength readme1Rest = 4"
    by (simp add: readme1Rest_def evals)
  have pre: "take 6 readme1 = lit ''# lib'' @ [nl]"
    by (simp add: readme1_def lit_def)
  have m: "take 4 readme1Rest = [nl] @ lit ''old''"
    "drop 4 readme1Rest = [nl] @ lit ''## License'' @ [nl]"
    by (simp_all add: readme1Rest_def lit_def)
  have "replaceLibrary readme1 r =
     take 6 readme1 @ getSubstitution (libraryHeading @ take 4 readme1Rest) (take 6 readme1)
       (drop 4 readme1Rest) r @ drop 4 readme1Rest"
    by (rule replaceLibrary_found [OF i rest n])
  then show ?thesis
    by (simp only: pre m append_assoc)
qed

text \<open>
  C8 at a failing input: API.md holds one construct whose description is
  \<open>costs $$5\<close>, and README.md holds the library heading. The script parses the item with
  that description, but the section it writes into README.md is the one generated for
  the description \<open>costs $5\<close>: the replacement string of \<open>replace\<close> is subject to the
  dollar patterns, so the written section is not the freshly generated one.
\<close>

theorem C8_dollar_in_description:
  "parseContent apiDollar = \<lparr> constructs = [(0, itemParsed)], aspects = [], patterns = [] \<rparr>
   \<and> (\<exists>fs'. updateReadmeLibrary (fsReadme apiDollar) =
              Inr (fs', ConsoleLog (lit ''README updated -- count: '' @ decimal 1))
        \<and> files fs' readmePath =
            Some (lit ''# lib'' @ [nl]
                  @ newLibrarySection (generateMarkdown [itemWritten] [] [])
                  @ [nl] @ lit ''## License'' @ [nl]))
   \<and> newLibrarySection (generateMarkdown [itemWritten] [] [])
       \<noteq> newLibrarySection (generateMarkdown [itemParsed] [] [])"
proof -
  have paths: "apiPath \<noteq> readmePath"
    by (simp add: apiPath_def readmePath_def lit_def)
  have run: "updateReadmeLibrary (fsReadme apiDollar) =
      Inr (fsReadme apiDollar \<lparr> files := (files (fsReadme apiDollar))(readmePath \<mapsto>
             lit ''# lib'' @ [nl]
             @ newLibrarySection (generateMarkdown [itemWritten] [] [])
             @ [nl] @ lit ''## License'' @ [nl]) \<rparr>,
           ConsoleLog (lit ''README updated -- count: '' @ decimal 1))"
    using paths
    by (simp add: updateReadmeLibrary_def parseApiDoc_def readFileSync_def writeFileSync_def
        fsReadme_def apiDollar_parsed readme1_replaced substituted Let_def
        del: append_assoc append.simps)
  have "length (sectionHead @ dollar # sectionTail)
      \<noteq> length (sectionHead @ dollar # dollar # sectionTail)"
    by simp
  then have ne: "newLibrarySection (generateMarkdown [itemWritten] [] [])
       \<noteq> newLibrarySection (generateMarkdown [itemParsed] [] [])"
    unfolding sections by metis
  show ?thesis
    using apiDollar_parsed ne by (simp add: run)
qed

end
